theory Spec2Isabelle
  imports Main
begin

section \<open>Strings and numbers printed into them\<close>

text \<open>
  JavaScript template literals print a number in decimal. \<open>digits\<close> is that
  printing for the non-negative integers the program prints (row indices and counts).
\<close>

definition digit_char :: "nat \<Rightarrow> char" where
  "digit_char d = ''0123456789'' ! (d mod 10)"

function digits :: "nat \<Rightarrow> string" where
  "digits n = (if n < 10 then [digit_char n] else digits (n div 10) @ [digit_char (n mod 10)])"
  by pat_completeness auto
termination
  by (relation "measure id") auto

declare digits.simps [simp del]

text \<open>
  \<open>String.prototype.trim\<close> removes white space at both ends. The model works on
  bytes, so it removes the ASCII white space (space, tab, line feed, vertical tab, form
  feed, carriage return).
\<close>

definition is_space :: "char \<Rightarrow> bool" where
  "is_space c = (c \<in> set [CHR '' '', CHR 0x09, CHR 0x0A, CHR 0x0B, CHR 0x0C, CHR 0x0D])"

definition trim :: "string \<Rightarrow> string" where
  "trim s = rev (dropWhile is_space (rev (dropWhile is_space s)))"

section \<open>Moment values\<close>

text \<open>
  A \<open>Moment\<close> of the moment library, reduced to what the program observes of it:
  whether it is valid, the instant it stands for (milliseconds since the epoch, which
  \<open>isBefore\<close> compares) and the calendar fields that \<open>format\<close> prints.
  Parsing a text that does not match the format does not raise: it gives an invalid
  moment.
\<close>

datatype moment = Invalid | Valid (instant: int) (year: int) (month: nat) (day: nat)

fun isValid :: "moment \<Rightarrow> bool" where
  "isValid Invalid = False"
| "isValid (Valid _ _ _ _) = True"

text \<open>
  \<open>a.isBefore(b)\<close>: false when either moment is invalid, else the comparison of
  the two instants.
\<close>

fun isBefore :: "moment \<Rightarrow> moment \<Rightarrow> bool" where
  "isBefore (Valid a _ _ _) (Valid b _ _ _) = (a < b)"
| "isBefore _ _ = False"

text \<open>
  The parts of the moment library that are taken as parameters: parsing a text under a
  format and a locale, and formatting under a pattern that is outside the fragment
  modelled by \<open>format_date\<close> below.
\<close>

record moment_lib =
  parse :: "string \<Rightarrow> string \<Rightarrow> string \<Rightarrow> moment"
  format_other :: "moment \<Rightarrow> string \<Rightarrow> string"

text \<open>
  \<open>format\<close> for the numeric date tokens of the moment library: \<open>YYYY\<close>,
  \<open>YY\<close>, \<open>MM\<close>, \<open>M\<close>, \<open>DD\<close>, \<open>D\<close>. A character
  stands for itself when it is an ASCII character other than a letter, a bracket, a
  backslash, a line feed and a carriage return (the scanner of moment drops the line
  terminators, and reads a token or an escape from the others). \<open>month\<close> is the
  calendar month, 1 to 12. \<open>format_tokens\<close> scans what is left of a pattern, token
  by token; \<open>format_date\<close> is the formatting of a valid date under a pattern. A
  pattern with anything else in it is outside the fragment (\<open>None\<close>), and so is the
  empty pattern, for which moment prints its default format: \<open>moment_format\<close>
  leaves both to \<open>format_other\<close>. An invalid moment prints as
  \<open>Invalid date\<close>, whatever the pattern.
\<close>

definition zeroFill :: "nat \<Rightarrow> nat \<Rightarrow> string" where
  "zeroFill number targetLength =
     replicate (targetLength - length (digits number)) (CHR ''0'') @ digits number"

definition is_letter :: "char \<Rightarrow> bool" where
  "is_letter c =
     (let k = (of_char c :: nat) in (65 \<le> k \<and> k \<le> 90) \<or> (97 \<le> k \<and> k \<le> 122))"

definition stands_for_itself :: "char \<Rightarrow> bool" where
  "stands_for_itself c =
     ((of_char c :: nat) < 128 \<and> c \<noteq> CHR 0x0A \<and> c \<noteq> CHR 0x0D
      \<and> \<not> is_letter c \<and> c \<noteq> CHR ''['' \<and> c \<noteq> CHR '']'' \<and> c \<noteq> CHR 0x5C)"

function format_tokens :: "int \<Rightarrow> nat \<Rightarrow> nat \<Rightarrow> string \<Rightarrow> string option" where
  "format_tokens y mo d p =
     (case p of
        [] \<Rightarrow> Some []
      | c # r \<Rightarrow>
          (let n = length (takeWhile (\<lambda>x. x = c) p) in
           if c = CHR ''Y'' then
             (if n = 4 \<and> 0 \<le> y \<and> y \<le> 9999 then
                map_option (\<lambda>s. zeroFill (nat y) 4 @ s) (format_tokens y mo d (drop 4 p))
              else if n = 2 \<and> 0 \<le> y then
                map_option (\<lambda>s. zeroFill (nat y mod 100) 2 @ s) (format_tokens y mo d (drop 2 p))
              else None)
           else if c = CHR ''M'' then
             (if n = 2 then map_option (\<lambda>s. zeroFill mo 2 @ s) (format_tokens y mo d (drop 2 p))
              else if n = 1 then map_option (\<lambda>s. digits mo @ s) (format_tokens y mo d r)
              else None)
           else if c = CHR ''D'' then
             (if n = 2 then map_option (\<lambda>s. zeroFill d 2 @ s) (format_tokens y mo d (drop 2 p))
              else if n = 1 then map_option (\<lambda>s. digits d @ s) (format_tokens y mo d r)
              else None)
           else if stands_for_itself c then map_option (\<lambda>s. c # s) (format_tokens y mo d r)
           else None))"
  by pat_completeness auto
termination
  by (relation "measure (\<lambda>(y, mo, d, p). length p)") auto

declare format_tokens.simps [simp del]

definition format_date :: "int \<Rightarrow> nat \<Rightarrow> nat \<Rightarrow> string \<Rightarrow> string option" where
  "format_date y mo d p = (if p = [] then None else format_tokens y mo d p)"

definition moment_format :: "moment_lib \<Rightarrow> moment \<Rightarrow> string \<Rightarrow> string" where
  "moment_format lib m p =
     (case m of
        Invalid \<Rightarrow> ''Invalid date''
      | Valid t y mo d \<Rightarrow>
          (case format_date y mo d p of Some s \<Rightarrow> s | None \<Rightarrow> format_other lib m p))"

section \<open>Paths\<close>

text \<open>
  \<open>path.join\<close> of Node.js on POSIX: the non-empty arguments joined by a slash, then
  normalised (empty and \<open>.\<close> segments dropped, \<open>..\<close> resolved against the segment
  before it, a trailing slash kept).
\<close>

fun split_path :: "string \<Rightarrow> string list" where
  "split_path [] = [[]]"
| "split_path (c # cs) =
     (if c = CHR ''/'' then [] # split_path cs
      else (case split_path cs of [] \<Rightarrow> [[c]] | s # ss \<Rightarrow> (c # s) # ss))"

fun join_segments :: "string list \<Rightarrow> string" where
  "join_segments [] = []"
| "join_segments [s] = s"
| "join_segments (s # t # ss) = s @ ''/'' @ join_segments (t # ss)"

text \<open>The segments kept so far are a stack, the last one on top.\<close>

definition normalize_step :: "bool \<Rightarrow> string list \<Rightarrow> string \<Rightarrow> string list" where
  "normalize_step allowAboveRoot res seg =
     (if seg = [] \<or> seg = ''.'' then res
      else if seg = ''..'' then
        (case res of
           [] \<Rightarrow> if allowAboveRoot then [''..''] else []
         | seg0 # below \<Rightarrow>
             if seg0 = ''..'' then (if allowAboveRoot then ''..'' # res else res) else below)
      else seg # res)"

definition normalizeString :: "string \<Rightarrow> bool \<Rightarrow> string" where
  "normalizeString path allowAboveRoot =
     join_segments (rev (foldl (normalize_step allowAboveRoot) [] (split_path path)))"

definition normalize :: "string \<Rightarrow> string" where
  "normalize path =
     (if path = [] then ''.''
      else
        (let isAbsolute = (hd path = CHR ''/'');
             trailingSeparator = (last path = CHR ''/'');
             p = normalizeString path (\<not> isAbsolute)
         in if p = [] then (if isAbsolute then ''/'' else if trailingSeparator then ''./'' else ''.'')
            else (if isAbsolute then ''/'' else []) @ p @ (if trailingSeparator then ''/'' else [])))"

definition path_join :: "string \<Rightarrow> string \<Rightarrow> string" where
  "path_join a b =
     (let joined = (if a = [] then b else if b = [] then a else a @ ''/'' @ b)
      in if joined = [] then ''.'' else normalize joined)"

section \<open>The world the program talks to\<close>

text \<open>
  Every call the program makes to the browser driver, the file system and the reporter
  is an event. The history of a run is the list of its events, oldest first.
\<close>

datatype call =
    Launch nat nat
  | NewPage
  | Goto string
  | TypeText string string
  | Click string
  | WaitForNavigation
  | WaitForTimeout nat
  | QueryAll string
  | WaitForSelector string bool
  | ExtractText string
  | SetDownloadBehavior string
  | PageClose
  | BrowserClose
  | PathExists string
  | Rename string string
  | Report string string
  | PrintWithFilepath "string list"
  | Progress nat
  | Tick

datatype error = Error (message: string)

datatype element_handle = ElementHandle nat

text \<open>
  The environment answers each call from the history so far: whether the call rejects
  (and with which message), whether a path exists, which elements a selector matches,
  which text an element shows. The theorems hold for every environment.
\<close>

record env =
  rejects :: "call list \<Rightarrow> call \<Rightarrow> string option"
  pathExists :: "call list \<Rightarrow> string \<Rightarrow> bool"
  queryAll :: "call list \<Rightarrow> string \<Rightarrow> element_handle list"
  extractText :: "call list \<Rightarrow> string \<Rightarrow> string"
  seperator :: string

text \<open>
  An asynchronous computation: from the history it either never settles (\<open>None\<close>),
  or settles with a rejection (\<open>Inl\<close>) or a value (\<open>Inr\<close>) and the extended
  history.
\<close>

type_synonym 'a io = "call list \<Rightarrow> ((error + 'a) \<times> call list) option"

definition io_return :: "'a \<Rightarrow> 'a io" where
  "io_return x tr = Some (Inr x, tr)"

definition io_throw :: "error \<Rightarrow> 'a io" where
  "io_throw e tr = Some (Inl e, tr)"

definition io_bind :: "'a io \<Rightarrow> ('a \<Rightarrow> 'b io) \<Rightarrow> 'b io" where
  "io_bind m f tr =
     (case m tr of
        None \<Rightarrow> None
      | Some (Inl e, tr1) \<Rightarrow> Some (Inl e, tr1)
      | Some (Inr x, tr1) \<Rightarrow> f x tr1)"

definition io_then :: "'a io \<Rightarrow> 'b io \<Rightarrow> 'b io" where
  "io_then m n = io_bind m (\<lambda>_. n)"

definition io_catch :: "'a io \<Rightarrow> (error \<Rightarrow> 'a io) \<Rightarrow> 'a io" where
  "io_catch m handler tr =
     (case m tr of
        None \<Rightarrow> None
      | Some (Inl e, tr1) \<Rightarrow> handler e tr1
      | Some (Inr x, tr1) \<Rightarrow> Some (Inr x, tr1))"

text \<open>An awaited call that may reject, and a call that cannot.\<close>

definition perform :: "env \<Rightarrow> call \<Rightarrow> unit io" where
  "perform e c tr =
     Some (case rejects e tr c of Some m \<Rightarrow> Inl (Error m) | None \<Rightarrow> Inr (), tr @ [c])"

definition emit :: "call \<Rightarrow> unit io" where
  "emit c tr = Some (Inr (), tr @ [c])"

section \<open>The hunter object\<close>

text \<open>
  \<open>EndesaConfig\<close>, imported from \<open>../config/endesa-config\<close> (routes,
  selectors, the page's date format and locale, the name and extension of the
  downloaded file), is a parameter of the model, with one field for each value that the
  class reads.
\<close>

record endesa_config =
  baseRoute :: string
  route_login :: string
  route_invoices :: string
  sel_login_username :: string
  sel_login_password :: string
  sel_login_submitButton :: string
  sel_acceptCookiesButton :: string
  sel_listItems :: string
  sel_dateCell :: string
  sel_actionCell :: string
  sel_actionButton :: string
  sel_content :: string
  sel_downloadButton :: string
  config_locale :: string
  config_dateFormat :: string
  invoiceName :: string
  invoiceExtension :: string

record processed_row =
  date :: moment
  selector :: string
  rawDate :: string

text \<open>
  The fields of the class. \<open>browser\<close> and \<open>page\<close> are the two handles, present
  or not; \<open>locale_name\<close> is the field \<open>locale\<close>; \<open>username\<close> and
  \<open>password\<close> are \<open>pageCredentials\<close>; \<open>endesa\<close> holds the fields copied
  from \<open>EndesaConfig\<close>. The reporter is part of the environment: its calls are
  recorded in the history, return nothing that the program reads, and are taken not to
  raise.
\<close>

record hunter =
  rowsToProcess :: "processed_row list"
  browser :: "unit option"
  page :: "unit option"
  locale_name :: string
  downloadDir :: string
  lastInvoiceDate :: moment
  invoiceDateFormat :: string
  username :: string
  password :: string
  endesa :: endesa_config

text \<open>\<open>this.page?.f(...)\<close>: nothing happens when the page is undefined.\<close>

definition on_page :: "hunter \<Rightarrow> unit io \<Rightarrow> unit io" where
  "on_page h m = (case page h of None \<Rightarrow> io_return () | Some _ \<Rightarrow> m)"

definition print :: "string \<Rightarrow> string \<Rightarrow> unit io" where
  "print msg type = emit (Report type msg)"

section \<open>Row discovery\<close>

definition currentRowSelector :: "hunter \<Rightarrow> nat \<Rightarrow> string" where
  "currentRowSelector h i = sel_listItems (endesa h) @ '':nth-child('' @ digits (i + 1) @ '')''"

definition dateCellSelector :: "hunter \<Rightarrow> nat \<Rightarrow> string" where
  "dateCellSelector h i = currentRowSelector h i @ '' '' @ sel_dateCell (endesa h)"

text \<open>
  Modelled from the spec: \<open>extractTextFromElement\<close>, imported from
  \<open>../utils/page\<close>, is the capability \<open>extractText(selector) -> string\<close> of the
  browser automation interface: a call to the environment that gives the text of the
  element or rejects.
\<close>

definition extractTextFromElement :: "env \<Rightarrow> string \<Rightarrow> string io" where
  "extractTextFromElement e sel tr =
     Some (case rejects e tr (ExtractText sel) of
             Some m \<Rightarrow> Inl (Error m)
           | None \<Rightarrow> Inr (extractText e tr sel), tr @ [ExtractText sel])"

function findRows_from ::
  "env \<Rightarrow> moment_lib \<Rightarrow> hunter \<Rightarrow> nat \<Rightarrow> nat \<Rightarrow> processed_row list \<Rightarrow> processed_row list io"
where
  "findRows_from e lib h n i result =
     (if i < n then
        io_bind (extractTextFromElement e (dateCellSelector h i))
          (\<lambda>date.
             let currentDate =
                   parse lib (trim date) (config_dateFormat (endesa h)) (config_locale (endesa h))
             in findRows_from e lib h n (Suc i)
                  (if isBefore (lastInvoiceDate h) currentDate
                   then result @ [\<lparr>date = currentDate,
                                    selector = currentRowSelector h i,
                                    rawDate = trim date\<rparr>]
                   else result))
      else io_return result)"
  by pat_completeness auto
termination
  by (relation "measure (\<lambda>(e, lib, h, n, i, result). n - i)") auto

declare findRows_from.simps [simp del]

definition findRowsToProcess ::
  "env \<Rightarrow> moment_lib \<Rightarrow> hunter \<Rightarrow> element_handle list \<Rightarrow> processed_row list io"
where
  "findRowsToProcess e lib h rows =
     (case page h of
        None \<Rightarrow> io_throw (Error ''Page not initialized'')
      | Some _ \<Rightarrow> findRows_from e lib h (length rows) 0 [])"

section \<open>Construction, session start and login\<close>

text \<open>
  \<open>HuntConfig\<close>, imported from \<open>../types/Hunter\<close>: the three fields that the
  constructor reads, the name format being optional.
\<close>

record hunt_config =
  config_username :: string
  config_password :: string
  invoiceNameFormat :: "string option"

text \<open>
  The constructor, from \<open>EndesaConfig\<close> and its arguments \<open>config\<close>,
  \<open>downloadDir\<close> and \<open>lastInvoiceDate\<close> (the reporter is the environment).
\<close>

definition constructor ::
  "endesa_config \<Rightarrow> hunt_config \<Rightarrow> string \<Rightarrow> moment \<Rightarrow> hunter"
where
  "constructor cfg config dir lastDate =
     \<lparr>rowsToProcess = [],
      browser = None,
      page = None,
      locale_name = ''en'',
      downloadDir = path_join dir ''/endesa/'',
      lastInvoiceDate = lastDate,
      invoiceDateFormat = (case invoiceNameFormat config of None \<Rightarrow> ''DD-MM-YY'' | Some f \<Rightarrow> f),
      username = config_username config,
      password = config_password config,
      endesa = cfg\<rparr>"

definition width :: nat where
  "width = 1680"

definition height :: nat where
  "height = 950"

definition init :: "env \<Rightarrow> hunter \<Rightarrow> hunter io" where
  "init e h =
     io_then (print ''Initializing...'' ''info'')
       (io_then (perform e (Launch width height))
          (io_then (perform e NewPage)
             (io_then (perform e (Goto (baseRoute (endesa h))))
                (io_return (h\<lparr>browser := Some (), page := Some ()\<rparr>)))))"

definition login :: "env \<Rightarrow> hunter \<Rightarrow> unit io" where
  "login e h =
     (case page h of
        None \<Rightarrow>
          io_then (print ''Login called without initializing'' ''error'')
            (io_throw (Error ''Missing init call''))
      | Some _ \<Rightarrow>
          io_then (perform e (Goto (baseRoute (endesa h) @ route_login (endesa h))))
            (io_then (perform e (TypeText (sel_login_username (endesa h)) (username h)))
               (io_then (perform e (TypeText (sel_login_password (endesa h)) (password h)))
                  (io_then (perform e (Click (sel_acceptCookiesButton (endesa h))))
                     (io_then (perform e (Click (sel_login_submitButton (endesa h))))
                        (io_then (perform e WaitForNavigation)
                           (emit (WaitForTimeout 2000))))))))"

definition navigateToInvoicesPage :: "env \<Rightarrow> hunter \<Rightarrow> unit io" where
  "navigateToInvoicesPage e h =
     io_then (on_page h (perform e (Goto (baseRoute (endesa h) @ route_invoices (endesa h)))))
       (on_page h (perform e (WaitForSelector (sel_listItems (endesa h)) False)))"

definition findAndSetRowsToProcess ::
  "env \<Rightarrow> moment_lib \<Rightarrow> hunter \<Rightarrow> element_handle list \<Rightarrow> hunter io"
where
  "findAndSetRowsToProcess e lib h rows =
     io_bind (findRowsToProcess e lib h rows) (\<lambda>found. io_return (h\<lparr>rowsToProcess := found\<rparr>))"

section \<open>Saving one invoice\<close>

text \<open>
  The polling of the file system. \<open>fs.pathExists\<close> gives a boolean and
  \<open>page.waitForTimeout\<close> a promise that resolves after the delay; neither rejects.
  A run that polls for ever has no result.
\<close>

partial_function (option) waitUntilFileIsDownloaded ::
  "env \<Rightarrow> hunter \<Rightarrow> string \<Rightarrow> call list \<Rightarrow> ((error + unit) \<times> call list) option"
where
  "waitUntilFileIsDownloaded e h filePath tr =
     (if pathExists e tr filePath then Some (Inr (), tr @ [PathExists filePath])
      else waitUntilFileIsDownloaded e h filePath
             (case page h of
                None \<Rightarrow> tr @ [PathExists filePath]
              | Some _ \<Rightarrow> tr @ [PathExists filePath, WaitForTimeout 1000]))"

declare waitUntilFileIsDownloaded.simps [code]

definition newFileName :: "moment_lib \<Rightarrow> hunter \<Rightarrow> processed_row \<Rightarrow> string" where
  "newFileName lib h row =
     moment_format lib (date row) (invoiceDateFormat h) @ ''.'' @ invoiceExtension (endesa h)"

definition fileName :: "hunter \<Rightarrow> string" where
  "fileName h = invoiceName (endesa h) @ ''.'' @ invoiceExtension (endesa h)"

definition saveInvoice :: "env \<Rightarrow> moment_lib \<Rightarrow> hunter \<Rightarrow> string \<Rightarrow> processed_row \<Rightarrow> unit io" where
  "saveInvoice e lib h downloadPath row =
     io_then (on_page h (perform e (SetDownloadBehavior downloadPath)))
       (io_then (on_page h (perform e (WaitForSelector (sel_downloadButton (endesa h)) False)))
          (io_then (on_page h (perform e (Click (sel_downloadButton (endesa h)))))
             (io_then (waitUntilFileIsDownloaded e h (downloadPath @ ''/'' @ fileName h))
                (io_then (print ''Invoice saved'' ''success'')
                   (io_then (perform e (Rename (downloadPath @ ''/'' @ fileName h)
                                           (downloadPath @ ''/'' @ newFileName lib h row)))
                      (emit (PrintWithFilepath
                               [''Invoice renamed to'', newFileName lib h row, ''success''])))))))"

definition processRowItem :: "env \<Rightarrow> moment_lib \<Rightarrow> hunter \<Rightarrow> processed_row \<Rightarrow> unit io" where
  "processRowItem e lib h row =
     io_then (on_page h (perform e (Click (selector row @ '' '' @ sel_actionCell (endesa h)
                                            @ '' '' @ sel_actionButton (endesa h)))))
       (io_then (on_page h (perform e (WaitForSelector (sel_content (endesa h)) True)))
          (saveInvoice e lib h (downloadDir h) row))"

section \<open>The download loop\<close>

record count =
  total :: nat
  downloaded :: nat

text \<open>
  The \<open>for\<close> loop of \<open>downloadInvoices\<close>, from index \<open>i\<close> with the counter
  \<open>downloadedCount\<close>. Only the download of the row is inside the \<open>try\<close>; the
  navigation back to the list is not.
\<close>

function downloadLoop :: "env \<Rightarrow> moment_lib \<Rightarrow> hunter \<Rightarrow> nat \<Rightarrow> nat \<Rightarrow> nat io" where
  "downloadLoop e lib h i downloadedCount =
     (if i < length (rowsToProcess h) then
        (let row = rowsToProcess h ! i in
         io_then (if i > 0 then navigateToInvoicesPage e h else io_return ())
           (io_then (if i = 0 then print (seperator e) ''log'' else io_return ())
              (io_bind
                 (io_catch
                    (io_then (print (''Dowloading invoice for '' @ rawDate row) ''info'')
                       (io_then (processRowItem e lib h row) (io_return (downloadedCount + 1))))
                    (\<lambda>err.
                       io_then (print (''Failed to download invoice for '' @ rawDate row) ''error'')
                         (io_return downloadedCount)))
                 (\<lambda>c.
                    io_then (emit Tick)
                      (io_then (print (seperator e) ''log'')
                         (downloadLoop e lib h (i + 1) c))))))
      else io_return downloadedCount)"
  by pat_completeness auto
termination
  by (relation "measure (\<lambda>(e, lib, h, i, c). length (rowsToProcess h) - i)") auto

declare downloadLoop.simps [simp del]

definition queryAllElements :: "env \<Rightarrow> string \<Rightarrow> element_handle list io" where
  "queryAllElements e sel tr =
     Some (case rejects e tr (QueryAll sel) of
             Some m \<Rightarrow> Inl (Error m)
           | None \<Rightarrow> Inr (queryAll e tr sel), tr @ [QueryAll sel])"

definition downloadInvoices :: "env \<Rightarrow> moment_lib \<Rightarrow> hunter \<Rightarrow> count io" where
  "downloadInvoices e lib h =
     (case page h of
        None \<Rightarrow> io_throw (Error ''Missing init call'')
      | Some _ \<Rightarrow>
          io_then (navigateToInvoicesPage e h)
            (io_bind (queryAllElements e (sel_listItems (endesa h)))
               (\<lambda>rows.
                  io_bind (findAndSetRowsToProcess e lib h rows)
                    (\<lambda>h'.
                       if rowsToProcess h' = [] then io_return \<lparr>total = 0, downloaded = 0\<rparr>
                       else
                         io_then (print (''Found '' @ digits (length (rowsToProcess h'))
                                          @ '' invoices'') ''info'')
                           (io_then (emit (PrintWithFilepath [''Saving invoices to'', downloadDir h']))
                              (io_then (emit (Progress (length (rowsToProcess h'))))
                                 (io_bind (downloadLoop e lib h' 0 0)
                                    (\<lambda>downloadedCount.
                                       io_return \<lparr>total = length (rowsToProcess h'),
                                                  downloaded = downloadedCount\<rparr>))))))))"

section \<open>The run\<close>

text \<open>
  What the caller of \<open>run\<close> can receive: \<open>undefined\<close>, or an object with the two
  counts. The message that reports the counts (the \<open>if\<close> inside the second
  \<open>try\<close> of \<open>run\<close>) is \<open>report_count\<close>.
\<close>

datatype run_value = Undefined | CountObject count

definition report_count :: "count \<Rightarrow> unit io" where
  "report_count c =
     (if total c > 0 then
        print (''Downloaded '' @ digits (downloaded c) @ ''/'' @ digits (total c) @ '' invoices'')
          (if total c = downloaded c then ''success''
           else if downloaded c = 0 then ''error''
           else ''info'')
      else print ''No invoices found to download'' ''warn'')"

definition close_page :: "env \<Rightarrow> hunter \<Rightarrow> unit io" where
  "close_page e h = on_page h (perform e PageClose)"

definition close_browser :: "env \<Rightarrow> hunter \<Rightarrow> unit io" where
  "close_browser e h = (case browser h of None \<Rightarrow> io_return () | Some _ \<Rightarrow> perform e BrowserClose)"

text \<open>
  The two \<open>try\<close> statements of \<open>run\<close> and the two closing calls after them.
  The first \<open>try\<close> gives \<open>None\<close> when the login went through, and the value of
  the early \<open>return\<close> when its \<open>catch\<close> ran to its end.
\<close>

definition teardown :: "env \<Rightarrow> hunter \<Rightarrow> unit io" where
  "teardown e h = io_then (close_page e h) (close_browser e h)"

definition login_attempt :: "env \<Rightarrow> hunter \<Rightarrow> run_value option io" where
  "login_attempt e h =
     io_catch
       (io_then (print ''Trying to login...'' ''info'')
          (io_then (login e h)
             (io_then (print ''Logged in successfully'' ''info'') (io_return None))))
       (\<lambda>err.
          io_then (print ''Failed to login with provided credentials'' ''error'')
            (io_then (teardown e h) (io_return (Some Undefined))))"

definition download_attempt :: "env \<Rightarrow> moment_lib \<Rightarrow> hunter \<Rightarrow> unit io" where
  "download_attempt e lib h =
     io_catch
       (io_then (print ''Downloading invoices'' ''info'')
          (io_bind (downloadInvoices e lib h) report_count))
       (\<lambda>err.
          io_then (print ''Failed to download invoices'' ''error'')
            (print (message err) ''error''))"

definition run :: "env \<Rightarrow> moment_lib \<Rightarrow> hunter \<Rightarrow> run_value io" where
  "run e lib h0 =
     io_bind (init e h0)
       (\<lambda>h.
          io_then (print ''Running...'' ''info'')
            (io_bind (login_attempt e h)
               (\<lambda>early.
                  case early of
                    Some v \<Rightarrow> io_return v
                  | None \<Rightarrow>
                      io_then (download_attempt e lib h)
                        (io_then (teardown e h) (io_return Undefined)))))"

section \<open>Histories\<close>

text \<open>
  \<open>emits P m\<close>: whenever \<open>m\<close> settles, it has extended the history by calls that
  all satisfy \<open>P\<close>.
\<close>

definition emits :: "(call \<Rightarrow> bool) \<Rightarrow> 'a io \<Rightarrow> bool" where
  "emits P m =
     (\<forall>tr r tr'. m tr = Some (r, tr') \<longrightarrow> (\<exists>ext. tr' = tr @ ext \<and> list_all P ext))"

text \<open>\<open>returns Q m\<close>: whenever \<open>m\<close> settles with a value, the value satisfies \<open>Q\<close>.\<close>

definition returns :: "('a \<Rightarrow> bool) \<Rightarrow> 'a io \<Rightarrow> bool" where
  "returns Q m = (\<forall>tr x tr'. m tr = Some (Inr x, tr') \<longrightarrow> Q x)"

definition starts_with :: "string \<Rightarrow> string \<Rightarrow> bool" where
  "starts_with p s = (take (length p) s = p)"

section \<open>What a run of the row discovery reads\<close>

text \<open>
  The discovery loop only extracts texts, so the history before it reads row \<open>i\<close>
  (counted from 0) is known: the history at its start and one extraction for each
  earlier row. \<open>row_label\<close> is the trimmed text of row \<open>i\<close> at that time,
  \<open>row_date\<close> its parsed date, \<open>row_record\<close> the record the loop builds for it,
  and \<open>rows_readable\<close> says that no extraction rejects.
\<close>

definition row_trace :: "hunter \<Rightarrow> call list \<Rightarrow> nat \<Rightarrow> call list" where
  "row_trace h tr i = tr @ map (\<lambda>j. ExtractText (dateCellSelector h j)) [0..<i]"

definition row_label :: "env \<Rightarrow> hunter \<Rightarrow> call list \<Rightarrow> nat \<Rightarrow> string" where
  "row_label e h tr i = trim (extractText e (row_trace h tr i) (dateCellSelector h i))"

definition row_date :: "env \<Rightarrow> moment_lib \<Rightarrow> hunter \<Rightarrow> call list \<Rightarrow> nat \<Rightarrow> moment" where
  "row_date e lib h tr i =
     parse lib (row_label e h tr i) (config_dateFormat (endesa h)) (config_locale (endesa h))"

definition row_record :: "env \<Rightarrow> moment_lib \<Rightarrow> hunter \<Rightarrow> call list \<Rightarrow> nat \<Rightarrow> processed_row" where
  "row_record e lib h tr i =
     \<lparr>date = row_date e lib h tr i,
      selector = currentRowSelector h i,
      rawDate = row_label e h tr i\<rparr>"

definition rows_readable :: "env \<Rightarrow> hunter \<Rightarrow> call list \<Rightarrow> nat \<Rightarrow> bool" where
  "rows_readable e h tr n =
     list_all (\<lambda>i. rejects e (row_trace h tr i) (ExtractText (dateCellSelector h i)) = None)
       [0..<n]"

section \<open>A sample portal\<close>

text \<open>
  A small concrete world for the closed instances of the theorems: a list of three
  invoices dated 5 March, 5 February and 5 January 2024, a parser that knows these
  three labels, and an environment in which every call succeeds and every file
  exists at once.
\<close>

definition sample_config :: endesa_config where
  "sample_config =
     \<lparr>baseRoute = ''https://portal'',
      route_login = ''/login'',
      route_invoices = ''/invoices'',
      sel_login_username = ''#user'',
      sel_login_password = ''#pass'',
      sel_login_submitButton = ''#go'',
      sel_acceptCookiesButton = ''#ok'',
      sel_listItems = ''li'',
      sel_dateCell = ''.d'',
      sel_actionCell = ''.a'',
      sel_actionButton = ''.b'',
      sel_content = ''#doc'',
      sel_downloadButton = ''#dl'',
      config_locale = ''es'',
      config_dateFormat = ''DD/MM/YYYY'',
      invoiceName = ''factura'',
      invoiceExtension = ''pdf''\<rparr>"

definition march5 :: moment where
  "march5 = Valid 1709596800000 2024 3 5"

definition february5 :: moment where
  "february5 = Valid 1707091200000 2024 2 5"

definition january5 :: moment where
  "january5 = Valid 1704412800000 2024 1 5"

definition sample_lib :: moment_lib where
  "sample_lib =
     \<lparr>parse = (\<lambda>txt fmt loc.
                 if txt = ''05/03/2024'' then march5
                 else if txt = ''05/02/2024'' then february5
                 else if txt = ''05/01/2024'' then january5
                 else Invalid),
      format_other = (\<lambda>m p. p)\<rparr>"

definition sample_labels :: "string \<Rightarrow> string" where
  "sample_labels sel =
     (if sel = ''li:nth-child(1) .d'' then '' 05/03/2024 ''
      else if sel = ''li:nth-child(2) .d'' then ''05/02/2024''
      else if sel = ''li:nth-child(3) .d'' then ''05/01/2024''
      else [])"

definition sample_env :: env where
  "sample_env =
     \<lparr>rejects = (\<lambda>tr c. None),
      pathExists = (\<lambda>tr p. True),
      queryAll = (\<lambda>tr sel. [ElementHandle 0, ElementHandle 1, ElementHandle 2]),
      extractText = (\<lambda>tr sel. sample_labels sel),
      seperator = ''--''\<rparr>"

definition sample_hunt_config :: hunt_config where
  "sample_hunt_config =
     \<lparr>config_username = ''u'', config_password = ''p'', invoiceNameFormat = None\<rparr>"

text \<open>The object as constructed, and as it is once \<open>init\<close> has run.\<close>

definition sample_hunter :: "moment \<Rightarrow> hunter" where
  "sample_hunter watermark = constructor sample_config sample_hunt_config ''/tmp/out'' watermark"

definition started_hunter :: "moment \<Rightarrow> hunter" where
  "started_hunter watermark = (sample_hunter watermark)\<lparr>browser := Some (), page := Some ()\<rparr>"

section \<open>The outcome of a run, in the words of the specification\<close>

datatype outcome = NothingToDo | FullSuccess | TotalFailure | PartialSuccess

definition classify_spec :: "nat \<Rightarrow> nat \<Rightarrow> outcome" where
  "classify_spec t d =
     (if t = 0 then NothingToDo
      else if t = d then FullSuccess
      else if d = 0 \<and> t > 0 then TotalFailure
      else PartialSuccess)"

text \<open>The level of the reporter under which each outcome is printed.\<close>

fun outcome_level :: "outcome \<Rightarrow> string" where
  "outcome_level NothingToDo = ''warn''"
| "outcome_level FullSuccess = ''success''"
| "outcome_level TotalFailure = ''error''"
| "outcome_level PartialSuccess = ''info''"

section \<open>What the polling reads\<close>

text \<open>
  With the page there, the polling only checks the path and waits 1000 milliseconds,
  so the history before its check number \<open>n\<close> (counted from 0) is known: \<open>n\<close>
  rounds of a check and a wait. \<open>file_seen\<close> is the answer to that check.
\<close>

definition polls :: "string \<Rightarrow> nat \<Rightarrow> call list" where
  "polls filePath n = concat (replicate n [PathExists filePath, WaitForTimeout 1000])"

definition file_seen :: "env \<Rightarrow> string \<Rightarrow> call list \<Rightarrow> nat \<Rightarrow> bool" where
  "file_seen e filePath tr n = pathExists e (tr @ polls filePath n) filePath"

text \<open>
  Two variants of the sample portal: the downloaded file is there from the third check
  on, and the file never comes.
\<close>

definition late_env :: env where
  "late_env = sample_env\<lparr>pathExists := (\<lambda>tr p. 4 \<le> length tr)\<rparr>"

definition absent_env :: env where
  "absent_env = sample_env\<lparr>pathExists := (\<lambda>tr p. False)\<rparr>"

section \<open>Observations on a history\<close>

definition is_rename :: "call \<Rightarrow> bool" where
  "is_rename c = (case c of Rename _ _ \<Rightarrow> True | _ \<Rightarrow> False)"

definition march5_row :: processed_row where
  "march5_row = \<lparr>date = march5, selector = ''li:nth-child(1)'', rawDate = ''05/03/2024''\<rparr>"

text \<open>
  What the download loop prints around each record: the attempt, inside the
  \<open>try\<close>, and the failure, inside the \<open>catch\<close>. A \<open>quiet\<close> call is
  none of the three calls that the loop is observed by. \<open>navigation_never_rejects\<close>:
  neither call of the navigation to the list ever rejects.
\<close>

definition is_attempt :: "call \<Rightarrow> bool" where
  "is_attempt c =
     (case c of
        Report type msg \<Rightarrow> type = ''info'' \<and> starts_with ''Dowloading invoice for '' msg
      | _ \<Rightarrow> False)"

definition is_failure :: "call \<Rightarrow> bool" where
  "is_failure c =
     (case c of
        Report type msg \<Rightarrow> type = ''error'' \<and> starts_with ''Failed to download invoice for '' msg
      | _ \<Rightarrow> False)"

definition attempt_of :: "processed_row \<Rightarrow> call" where
  "attempt_of row = Report ''info'' (''Dowloading invoice for '' @ rawDate row)"

definition failure_of :: "processed_row \<Rightarrow> call" where
  "failure_of row = Report ''error'' (''Failed to download invoice for '' @ rawDate row)"

definition navigation_never_rejects :: "env \<Rightarrow> hunter \<Rightarrow> bool" where
  "navigation_never_rejects e h =
     (\<forall>t. rejects e t (Goto (baseRoute (endesa h) @ route_invoices (endesa h))) = None
          \<and> rejects e t (WaitForSelector (sel_listItems (endesa h)) False) = None)"

definition quiet :: "call \<Rightarrow> bool" where
  "quiet c = (\<not> is_attempt c \<and> \<not> is_failure c \<and> c \<noteq> Tick)"

text \<open>
  A variant of the sample portal for the loop: three records to process, and the
  action button of the second one cannot be clicked.
\<close>

definition february5_row :: processed_row where
  "february5_row = \<lparr>date = february5, selector = ''li:nth-child(2)'', rawDate = ''05/02/2024''\<rparr>"

definition january5_row :: processed_row where
  "january5_row = \<lparr>date = january5, selector = ''li:nth-child(3)'', rawDate = ''05/01/2024''\<rparr>"

definition three_rows_hunter :: hunter where
  "three_rows_hunter =
     (started_hunter Invalid)\<lparr>rowsToProcess := [march5_row, february5_row, january5_row]\<rparr>"

definition flaky_env :: env where
  "flaky_env =
     sample_env\<lparr>rejects := (\<lambda>tr c. if c = Click ''li:nth-child(2) .a .b'' then Some ''stale'' else None)\<rparr>"

definition flaky_history :: "call list" where
  "flaky_history =
   [Report ''log'' ''--'',
    Report ''info'' ''Dowloading invoice for 05/03/2024'',
    Click ''li:nth-child(1) .a .b'', WaitForSelector ''#doc'' True,
    SetDownloadBehavior ''/tmp/out/endesa/'', WaitForSelector ''#dl'' False,
    Click ''#dl'', PathExists ''/tmp/out/endesa//factura.pdf'',
    Report ''success'' ''Invoice saved'',
    Rename ''/tmp/out/endesa//factura.pdf'' ''/tmp/out/endesa//05-03-24.pdf'',
    PrintWithFilepath [''Invoice renamed to'', ''05-03-24.pdf'', ''success''],
    Tick, Report ''log'' ''--'', Goto ''https://portal/invoices'',
    WaitForSelector ''li'' False,
    Report ''info'' ''Dowloading invoice for 05/02/2024'',
    Click ''li:nth-child(2) .a .b'',
    Report ''error'' ''Failed to download invoice for 05/02/2024'', Tick,
    Report ''log'' ''--'', Goto ''https://portal/invoices'',
    WaitForSelector ''li'' False,
    Report ''info'' ''Dowloading invoice for 05/01/2024'',
    Click ''li:nth-child(3) .a .b'', WaitForSelector ''#doc'' True,
    SetDownloadBehavior ''/tmp/out/endesa/'', WaitForSelector ''#dl'' False,
    Click ''#dl'', PathExists ''/tmp/out/endesa//factura.pdf'',
    Report ''success'' ''Invoice saved'',
    Rename ''/tmp/out/endesa//factura.pdf'' ''/tmp/out/endesa//05-01-24.pdf'',
    PrintWithFilepath [''Invoice renamed to'', ''05-01-24.pdf'', ''success''],
    Tick, Report ''log'' ''--'']"

section \<open>The outcomes of the records, in the words of the specification\<close>

text \<open>
  The specification has the records taken one after the other, the list opened again
  before each record but the first, and each record opened and downloaded; the outcome
  of a record is a value or the error raised. \<open>record_outcomes\<close> replays that from
  record \<open>i\<close> on, to be compared with the loop: \<open>list_reopened\<close> is the
  navigation before record \<open>i\<close>, \<open>announced\<close> and \<open>concluded\<close> are what
  is printed before and after the record is processed, and the outcome of the record is
  the result of \<open>processRowItem\<close> at the history reached. The replay keeps no
  counter. It ends at the first navigation that rejects, with the outcomes so far and
  the error of the navigation, or after the last record, with all the outcomes.
  \<open>raised\<close> is the number of outcomes that are an error.
\<close>

definition list_reopened :: "env \<Rightarrow> hunter \<Rightarrow> nat \<Rightarrow> unit io" where
  "list_reopened e h i = (if i > 0 then navigateToInvoicesPage e h else io_return ())"

definition announced :: "env \<Rightarrow> hunter \<Rightarrow> nat \<Rightarrow> call list" where
  "announced e h i =
     (if i = 0 then [Report ''log'' (seperator e)] else []) @ [attempt_of (rowsToProcess h ! i)]"

definition concluded :: "env \<Rightarrow> processed_row \<Rightarrow> error + unit \<Rightarrow> call list" where
  "concluded e row res =
     (case res of Inl _ \<Rightarrow> [failure_of row] | Inr _ \<Rightarrow> []) @ [Tick, Report ''log'' (seperator e)]"

function record_outcomes ::
  "env \<Rightarrow> moment_lib \<Rightarrow> hunter \<Rightarrow> nat \<Rightarrow> call list \<Rightarrow> ((error + unit) list \<times> error option) option"
where
  "record_outcomes e lib h i tr =
     (if i < length (rowsToProcess h) then
        (case list_reopened e h i tr of
           None \<Rightarrow> None
         | Some (Inl err, t) \<Rightarrow> Some ([], Some err)
         | Some (Inr u, t) \<Rightarrow>
             (case processRowItem e lib h (rowsToProcess h ! i) (t @ announced e h i) of
                None \<Rightarrow> None
              | Some (res, t') \<Rightarrow>
                  map_option (\<lambda>(outs, stop). (res # outs, stop))
                    (record_outcomes e lib h (Suc i)
                       (t' @ concluded e (rowsToProcess h ! i) res))))
      else Some ([], None))"
  by pat_completeness auto
termination
  by (relation "measure (\<lambda>(e, lib, h, i, tr). length (rowsToProcess h) - i)") auto

declare record_outcomes.simps [simp del]

definition raised :: "(error + unit) list \<Rightarrow> nat" where
  "raised outs = length (filter isl outs)"

text \<open>
  Another variant of the sample portal: the action button of the second record cannot
  be clicked, and after that the list does not load any more.
\<close>

definition stalled_env :: env where
  "stalled_env =
     sample_env\<lparr>rejects :=
       (\<lambda>tr c. if c = Click ''li:nth-child(2) .a .b'' then Some ''stale''
                else if c = Goto ''https://portal/invoices'' \<and> length (filter (\<lambda>x. x = Tick) tr) = 2
                then Some ''net::ERR_TIMED_OUT''
                else None)\<rparr>"

definition stalled_history :: "call list" where
  "stalled_history =
   [Report ''log'' ''--'',
    Report ''info'' ''Dowloading invoice for 05/03/2024'',
    Click ''li:nth-child(1) .a .b'', WaitForSelector ''#doc'' True,
    SetDownloadBehavior ''/tmp/out/endesa/'', WaitForSelector ''#dl'' False,
    Click ''#dl'', PathExists ''/tmp/out/endesa//factura.pdf'',
    Report ''success'' ''Invoice saved'',
    Rename ''/tmp/out/endesa//factura.pdf'' ''/tmp/out/endesa//05-03-24.pdf'',
    PrintWithFilepath [''Invoice renamed to'', ''05-03-24.pdf'', ''success''],
    Tick, Report ''log'' ''--'', Goto ''https://portal/invoices'',
    WaitForSelector ''li'' False,
    Report ''info'' ''Dowloading invoice for 05/02/2024'',
    Click ''li:nth-child(2) .a .b'',
    Report ''error'' ''Failed to download invoice for 05/02/2024'', Tick,
    Report ''log'' ''--'', Goto ''https://portal/invoices'']"

section \<open>The end of the session\<close>

text \<open>
  \<open>page.close()\<close> and \<open>browser.close()\<close> are calls to the browser like the
  others: they reject when the connection to the browser is lost.
  \<open>page_close_never_rejects\<close> says that the first of them does not,
  \<open>closes_never_reject\<close> that neither does. \<open>never_throws m\<close>: \<open>m\<close>
  never settles with an exception.
\<close>

definition not_close :: "call \<Rightarrow> bool" where
  "not_close c = (c \<noteq> PageClose \<and> c \<noteq> BrowserClose)"

definition page_close_never_rejects :: "env \<Rightarrow> bool" where
  "page_close_never_rejects e = (\<forall>t. rejects e t PageClose = None)"

definition closes_never_reject :: "env \<Rightarrow> bool" where
  "closes_never_reject e = (\<forall>t. rejects e t PageClose = None \<and> rejects e t BrowserClose = None)"

definition never_throws :: "'a io \<Rightarrow> bool" where
  "never_throws m = (\<forall>tr err tr'. m tr \<noteq> Some (Inl err, tr'))"

text \<open>
  Two more variants of the sample portal. In the first the browser is lost at the click
  on the action button of the first invoice: that call and every later call that may
  reject does. In the second the login does not go through: the wait for the
  navigation after the form is sent rejects.
\<close>

definition crashed_env :: env where
  "crashed_env =
     sample_env\<lparr>rejects := (\<lambda>tr c. if Click ''li:nth-child(1) .a .b'' \<in> set (tr @ [c])
                                   then Some ''Target closed'' else None)\<rparr>"

definition locked_env :: env where
  "locked_env =
     sample_env\<lparr>rejects := (\<lambda>tr c. if c = WaitForNavigation then Some ''Navigation timeout''
                                   else None)\<rparr>"

definition locked_history :: "call list" where
  "locked_history =
   [Report ''info'' ''Initializing...'', Launch 1680 950, NewPage,
    Goto ''https://portal'', Report ''info'' ''Running...'',
    Report ''info'' ''Trying to login...'', Goto ''https://portal/login'',
    TypeText ''#user'' ''u'', TypeText ''#pass'' ''p'', Click ''#ok'',
    Click ''#go'', WaitForNavigation,
    Report ''error'' ''Failed to login with provided credentials'',
    PageClose, BrowserClose]"

definition crashed_history :: "call list" where
  "crashed_history =
   [Report ''info'' ''Initializing...'', Launch 1680 950, NewPage,
    Goto ''https://portal'', Report ''info'' ''Running...'',
    Report ''info'' ''Trying to login...'', Goto ''https://portal/login'',
    TypeText ''#user'' ''u'', TypeText ''#pass'' ''p'', Click ''#ok'',
    Click ''#go'', WaitForNavigation, WaitForTimeout 2000,
    Report ''info'' ''Logged in successfully'',
    Report ''info'' ''Downloading invoices'',
    Goto ''https://portal/invoices'', WaitForSelector ''li'' False,
    QueryAll ''li'', ExtractText ''li:nth-child(1) .d'',
    ExtractText ''li:nth-child(2) .d'', ExtractText ''li:nth-child(3) .d'',
    Report ''info'' ''Found 1 invoices'',
    PrintWithFilepath [''Saving invoices to'', ''/tmp/out/endesa/''],
    Progress 1, Report ''log'' ''--'',
    Report ''info'' ''Dowloading invoice for 05/03/2024'',
    Click ''li:nth-child(1) .a .b'',
    Report ''error'' ''Failed to download invoice for 05/03/2024'', Tick,
    Report ''log'' ''--'', Report ''error'' ''Downloaded 0/1 invoices'',
    PageClose]"

definition init_history :: "call list" where
  "init_history =
   [Report ''info'' ''Initializing...'', Launch 1680 950, NewPage, Goto ''https://portal'']"

section \<open>Lists with a bad row\<close>

text \<open>
  Two more variants of the sample portal: the label of the first row is not a date,
  and the text of the second row cannot be extracted.
\<close>

definition garbled_env :: env where
  "garbled_env =
     sample_env\<lparr>extractText :=
       (\<lambda>tr sel. if sel = ''li:nth-child(1) .d'' then ''n/a'' else sample_labels sel)\<rparr>"

definition unreadable_env :: env where
  "unreadable_env =
     sample_env\<lparr>rejects :=
       (\<lambda>tr c. if c = ExtractText ''li:nth-child(2) .d'' then Some ''no node'' else None)\<rparr>"

section \<open>The latest issue date\<close>

text \<open>
  The watermark of a second run: the maximum of the issue dates of the records
  \<open>r # rs\<close> that the first run selected (\<open>later\<close> keeps the later of two
  moments, as \<open>moment.max\<close> does).
\<close>

definition later :: "moment \<Rightarrow> moment \<Rightarrow> moment" where
  "later a b = (if isBefore a b then b else a)"

definition max_issue_date :: "processed_row \<Rightarrow> processed_row list \<Rightarrow> moment" where
  "max_issue_date r rs = fold (\<lambda>x acc. later acc x) (map date rs) (date r)"

section \<open>Where the files go\<close>









section \<open>Runs that settle\<close>

text \<open>
  \<open>settles m\<close>: from every history, \<open>m\<close> comes to an end, with a value or an
  exception. \<open>succeeds m\<close>: it comes to an end with a value. \<open>files_appear\<close>: in
  this environment every file that is polled for is there at some check.
  \<open>never_rejects\<close>: no call rejects.
\<close>

definition settles :: "'a io \<Rightarrow> bool" where
  "settles m = (\<forall>tr. \<exists>r tr'. m tr = Some (r, tr'))"

definition files_appear :: "env \<Rightarrow> bool" where
  "files_appear e = (\<forall>p tr. \<exists>n. file_seen e p tr n)"

definition never_rejects :: "env \<Rightarrow> bool" where
  "never_rejects e = (\<forall>tr c. rejects e tr c = None)"

definition succeeds :: "'a io \<Rightarrow> bool" where
  "succeeds m = (\<forall>tr. \<exists>x tr'. m tr = Some (Inr x, tr'))"

section \<open>Output patterns, in the words of the specification\<close>

text \<open>
  The specification names the stored file after the issue date ``formatted per the
  configured pattern''. For the numeric date tokens that reading is written out here, to
  be compared with the scanner \<open>format_tokens\<close>: a pattern is a sequence of items, a
  token or a character that stands for itself; each token prints its field of the date
  and each character prints itself. Two tokens of the same letter may not follow each
  other, since their letters would read as one longer token.
\<close>

datatype date_token = Year4 | Year2 | Month2 | Month1 | Day2 | Day1

datatype pattern_item = Token date_token | Literal char

fun token_letters :: "date_token \<Rightarrow> string" where
  "token_letters Year4 = ''YYYY''"
| "token_letters Year2 = ''YY''"
| "token_letters Month2 = ''MM''"
| "token_letters Month1 = ''M''"
| "token_letters Day2 = ''DD''"
| "token_letters Day1 = ''D''"

fun token_text :: "int \<Rightarrow> nat \<Rightarrow> nat \<Rightarrow> date_token \<Rightarrow> string" where
  "token_text y mo d Year4 = zeroFill (nat y) 4"
| "token_text y mo d Year2 = zeroFill (nat y mod 100) 2"
| "token_text y mo d Month2 = zeroFill mo 2"
| "token_text y mo d Month1 = digits mo"
| "token_text y mo d Day2 = zeroFill d 2"
| "token_text y mo d Day1 = digits d"

fun item_letters :: "pattern_item \<Rightarrow> string" where
  "item_letters (Token t) = token_letters t"
| "item_letters (Literal c) = [c]"

fun item_text :: "int \<Rightarrow> nat \<Rightarrow> nat \<Rightarrow> pattern_item \<Rightarrow> string" where
  "item_text y mo d (Token t) = token_text y mo d t"
| "item_text y mo d (Literal c) = [c]"

fun well_formed :: "pattern_item list \<Rightarrow> bool" where
  "well_formed [] = True"
| "well_formed (Literal c # its) = (stands_for_itself c \<and> well_formed its)"
| "well_formed (Token t # its) =
     ((case its of
         Token u # _ \<Rightarrow> hd (token_letters t) \<noteq> hd (token_letters u)
       | _ \<Rightarrow> True)
      \<and> well_formed its)"

definition pattern_of :: "pattern_item list \<Rightarrow> string" where
  "pattern_of its = concat (map item_letters its)"

definition text_of :: "int \<Rightarrow> nat \<Rightarrow> nat \<Rightarrow> pattern_item list \<Rightarrow> string" where
  "text_of y mo d its = concat (map (item_text y mo d) its)"

text \<open>
  The default pattern of the constructor, and a pattern that prints the year first and
  pads nothing.
\<close>

definition day_month_year :: "pattern_item list" where
  "day_month_year =
     [Token Day2, Literal (CHR ''-''), Token Month2, Literal (CHR ''-''), Token Year2]"

definition year_month_day :: "pattern_item list" where
  "year_month_day =
     [Token Year4, Literal (CHR ''.''), Token Month1, Literal (CHR ''.''), Token Day1]"

section \<open>Properties of the row discovery\<close>

lemma isBefore_iff:
  "isBefore a b = (isValid a \<and> isValid b \<and> instant a < instant b)"
  by (cases a; cases b) simp_all

lemma row_trace_Suc:
  "row_trace h tr (Suc i) = row_trace h tr i @ [ExtractText (dateCellSelector h i)]"
  by (simp add: row_trace_def)

lemma findRows_from_readable:
  assumes "rows_readable e h tr n"
  shows "i \<le> n \<Longrightarrow>
    findRows_from e lib h n i result (row_trace h tr i) =
      Some (Inr (result @ map (row_record e lib h tr)
                   (filter (\<lambda>j. isBefore (lastInvoiceDate h) (row_date e lib h tr j)) [i..<n])),
            row_trace h tr n)"
proof (induction "n - i" arbitrary: i result)
  case 0
  then have "i = n" by simp
  then show ?case by (simp add: findRows_from.simps [of e lib h n n] io_return_def)
next
  case (Suc k)
  then have lt: "i < n" and k: "k = n - Suc i" and le: "Suc i \<le> n" by auto
  from assms lt have ok: "rejects e (row_trace h tr i) (ExtractText (dateCellSelector h i)) = None"
    by (simp add: rows_readable_def list_all_iff)
  have step: "findRows_from e lib h n i result (row_trace h tr i) =
      findRows_from e lib h n (Suc i)
        (if isBefore (lastInvoiceDate h) (row_date e lib h tr i)
         then result @ [row_record e lib h tr i] else result) (row_trace h tr (Suc i))"
    using lt ok
    by (subst findRows_from.simps)
       (simp add: io_bind_def extractTextFromElement_def row_trace_Suc row_date_def
          row_label_def row_record_def Let_def)
  show ?case
    unfolding step using Suc.hyps(1) [OF k le] lt
    by (simp add: upt_conv_Cons)
qed

lemma findRowsToProcess_readable:
  assumes "page h = Some p" and "rows_readable e h tr (length rows)"
  shows "findRowsToProcess e lib h rows tr =
      Some (Inr (map (row_record e lib h tr)
                   (filter (\<lambda>i. isBefore (lastInvoiceDate h) (row_date e lib h tr i))
                      [0..<length rows])),
            row_trace h tr (length rows))"
  using findRows_from_readable [OF assms(2), of 0 lib "[]"] assms(1)
  by (simp add: findRowsToProcess_def row_trace_def)

lemma sample_digits:
  "digits 0 = ''0''" "digits 1 = ''1''" "digits 2 = ''2''" "digits 3 = ''3''"
  "digits (Suc 0) = ''1''" "digits (Suc (Suc 0)) = ''2''"
  by (simp_all add: digits.simps digit_char_def)

lemma sample_selectors:
  "dateCellSelector (started_hunter w) 0 = ''li:nth-child(1) .d''"
  "dateCellSelector (started_hunter w) (Suc 0) = ''li:nth-child(2) .d''"
  "dateCellSelector (started_hunter w) 2 = ''li:nth-child(3) .d''"
  "currentRowSelector (started_hunter w) 0 = ''li:nth-child(1)''"
  "currentRowSelector (started_hunter w) (Suc 0) = ''li:nth-child(2)''"
  "currentRowSelector (started_hunter w) 2 = ''li:nth-child(3)''"
  by (simp_all add: dateCellSelector_def currentRowSelector_def started_hunter_def
        sample_hunter_def constructor_def sample_config_def sample_digits)

lemma sample_rows_readable: "rows_readable sample_env h tr n"
  by (simp add: rows_readable_def sample_env_def list_all_iff)

lemma sample_row_dates:
  "row_date sample_env sample_lib (started_hunter w) tr 0 = march5"
  "row_date sample_env sample_lib (started_hunter w) tr (Suc 0) = february5"
  "row_date sample_env sample_lib (started_hunter w) tr 2 = january5"
  by (simp_all add: row_date_def row_label_def sample_selectors sample_env_def sample_labels_def
        sample_lib_def trim_def is_space_def)

lemma sample_row_labels:
  "row_label sample_env (started_hunter w) tr 0 = ''05/03/2024''"
  "row_label sample_env (started_hunter w) tr (Suc 0) = ''05/02/2024''"
  "row_label sample_env (started_hunter w) tr 2 = ''05/01/2024''"
  by (simp_all add: row_label_def sample_selectors sample_env_def sample_labels_def
        trim_def is_space_def)

lemma sample_row_dates2:
  "row_date sample_env sample_lib (started_hunter w) tr (Suc (Suc 0)) = january5"
  "row_label sample_env (started_hunter w) tr (Suc (Suc 0)) = ''05/01/2024''"
  "currentRowSelector (started_hunter w) (Suc (Suc 0)) = ''li:nth-child(3)''"
  "dateCellSelector (started_hunter w) (Suc (Suc 0)) = ''li:nth-child(3) .d''"
  using sample_row_dates(3) [of w tr] sample_row_labels(3) [of w tr] sample_selectors(3,6) [of w]
  by (simp_all add: numeral_2_eq_2)

text \<open>
  C1. Filter correctness. When the page is there and every label can be read,
  \<open>findRowsToProcess\<close> returns, in page order, the records of exactly the rows whose
  parsed date \<open>d\<close> is valid and lies strictly after a valid watermark \<open>w\<close>
  (\<open>instant w < instant d\<close>): a row dated at the watermark or before it is left out.
\<close>

theorem findRowsToProcess_selects_strictly_after:
  assumes "page h = Some p" and "rows_readable e h tr (length rows)"
  shows "findRowsToProcess e lib h rows tr =
      Some (Inr (map (row_record e lib h tr)
                   (filter (\<lambda>i. isValid (lastInvoiceDate h) \<and> isValid (row_date e lib h tr i)
                                \<and> instant (lastInvoiceDate h) < instant (row_date e lib h tr i))
                      [0..<length rows])),
            row_trace h tr (length rows))"
  using findRowsToProcess_readable [OF assms] by (simp add: isBefore_iff)

theorem findRowsToProcess_selects_strictly_after_witness:
  "findRowsToProcess sample_env sample_lib (started_hunter february5)
     [ElementHandle 0, ElementHandle 1, ElementHandle 2] [] =
   Some (Inr [\<lparr>date = march5, selector = ''li:nth-child(1)'', rawDate = ''05/03/2024''\<rparr>],
         [ExtractText ''li:nth-child(1) .d'', ExtractText ''li:nth-child(2) .d'',
          ExtractText ''li:nth-child(3) .d''])"
proof -
  have pg: "page (started_hunter february5) = Some ()"
    by (simp add: started_hunter_def)
  have wm: "lastInvoiceDate (started_hunter february5) = february5"
    by (simp add: started_hunter_def sample_hunter_def constructor_def)
  have idx: "[0..<3] = [0, Suc 0, Suc (Suc 0)]"
    by (simp add: upt_rec numeral_3_eq_3)
  have inst: "instant march5 = 1709596800000" "instant february5 = 1707091200000"
    "instant january5 = 1704412800000" "isValid march5" "isValid february5" "isValid january5"
    by (simp_all add: march5_def february5_def january5_def)
  note th = findRowsToProcess_selects_strictly_after
      [OF pg sample_rows_readable, where lib = sample_lib and tr = "[]"
         and rows = "[ElementHandle 0, ElementHandle 1, ElementHandle 2]"]
  show ?thesis
    unfolding th
    by (simp add: idx wm sample_row_dates sample_row_labels sample_selectors sample_row_dates2
          row_record_def row_trace_def inst)
qed

section \<open>Properties of histories\<close>

lemma io_catch_simps:
  "m tr = None \<Longrightarrow> io_catch m f tr = None"
  "m tr = Some (Inl err, tr1) \<Longrightarrow> io_catch m f tr = f err tr1"
  "m tr = Some (Inr x, tr1) \<Longrightarrow> io_catch m f tr = Some (Inr x, tr1)"
  by (simp_all add: io_catch_def)

lemma emitsI:
  "(\<And>tr r tr'. m tr = Some (r, tr') \<Longrightarrow> \<exists>ext. tr' = tr @ ext \<and> list_all P ext) \<Longrightarrow> emits P m"
  by (simp add: emits_def)

lemma emitsD:
  "emits P m \<Longrightarrow> m tr = Some (r, tr') \<Longrightarrow> \<exists>ext. tr' = tr @ ext \<and> list_all P ext"
  by (simp add: emits_def)

lemma emits_return: "emits P (io_return x)"
  by (simp add: emits_def io_return_def)

lemma emits_throw: "emits P (io_throw err)"
  by (simp add: emits_def io_throw_def)

lemma emits_perform: "P c \<Longrightarrow> emits P (perform e c)"
  by (auto simp: emits_def perform_def)

lemma emits_emit: "P c \<Longrightarrow> emits P (emit c)"
  by (auto simp: emits_def emit_def)

lemma emits_print: "P (Report type msg) \<Longrightarrow> emits P (print msg type)"
  by (simp add: print_def emits_emit)

lemma emits_bind:
  assumes "emits P m" and "\<And>x. emits P (f x)"
  shows "emits P (io_bind m f)"
proof (rule emitsI)
  fix tr r tr'
  assume run: "io_bind m f tr = Some (r, tr')"
  show "\<exists>ext. tr' = tr @ ext \<and> list_all P ext"
  proof (cases "m tr")
    case None
    with run show ?thesis by (simp add: io_bind_def)
  next
    case (Some a)
    obtain r1 tr1 where a: "a = (r1, tr1)" by (cases a)
    from emitsD [OF assms(1)] Some a obtain ext1 where e1: "tr1 = tr @ ext1" "list_all P ext1"
      by blast
    show ?thesis
    proof (cases r1)
      case (Inl err)
      with run Some a e1 show ?thesis by (auto simp: io_bind_def)
    next
      case (Inr x)
      with run Some a have "f x tr1 = Some (r, tr')" by (simp add: io_bind_def)
      from emitsD [OF assms(2) this] obtain ext2 where "tr' = tr1 @ ext2" "list_all P ext2"
        by blast
      with e1 show ?thesis by auto
    qed
  qed
qed

lemma emits_then: "emits P m \<Longrightarrow> emits P n \<Longrightarrow> emits P (io_then m n)"
  by (simp add: io_then_def emits_bind)

lemma emits_catch:
  assumes "emits P m" and "\<And>err. emits P (f err)"
  shows "emits P (io_catch m f)"
proof (rule emitsI)
  fix tr r tr'
  assume run: "io_catch m f tr = Some (r, tr')"
  show "\<exists>ext. tr' = tr @ ext \<and> list_all P ext"
  proof (cases "m tr")
    case None
    with run show ?thesis by (simp add: io_catch_def)
  next
    case (Some a)
    obtain r1 tr1 where a: "a = (r1, tr1)" by (cases a)
    from emitsD [OF assms(1)] Some a obtain ext1 where e1: "tr1 = tr @ ext1" "list_all P ext1"
      by blast
    show ?thesis
    proof (cases r1)
      case (Inr x)
      with run Some a e1 show ?thesis by (auto simp: io_catch_def)
    next
      case (Inl err)
      with run Some a have "f err tr1 = Some (r, tr')" by (simp add: io_catch_def)
      from emitsD [OF assms(2) this] obtain ext2 where "tr' = tr1 @ ext2" "list_all P ext2"
        by blast
      with e1 show ?thesis by auto
    qed
  qed
qed

lemma emits_if: "emits P a \<Longrightarrow> emits P b \<Longrightarrow> emits P (if c then a else b)"
  by simp

lemma emits_on_page: "emits P m \<Longrightarrow> emits P (on_page h m)"
  by (simp add: on_page_def emits_return split: option.split)

lemma waitUntil_settles:
  assumes "waitUntilFileIsDownloaded e h filePath tr = Some y"
  shows "fst y = Inr () \<and>
    (\<exists>ext. snd y = tr @ ext \<and>
       list_all (\<lambda>c. c = PathExists filePath \<or> c = WaitForTimeout 1000) ext)"
  using assms
proof (induction rule: waitUntilFileIsDownloaded.raw_induct [rotated 1, consumes 1])
  case (1 wait e h filePath tr y)
  show ?case
  proof (cases "pathExists e tr filePath")
    case True
    with 1(2) show ?thesis by auto
  next
    case False
    with 1(2) have "wait e h filePath
        (case page h of None \<Rightarrow> tr @ [PathExists filePath]
         | Some x \<Rightarrow> tr @ [PathExists filePath, WaitForTimeout 1000]) = Some y"
      by simp
    from 1(1) [OF this] show ?thesis
      by (cases "page h") auto
  qed
qed

lemma emits_waitUntil:
  assumes "P (PathExists filePath)" and "P (WaitForTimeout 1000)"
  shows "emits P (waitUntilFileIsDownloaded e h filePath)"
proof (rule emitsI)
  fix tr r tr'
  assume "waitUntilFileIsDownloaded e h filePath tr = Some (r, tr')"
  from waitUntil_settles [OF this] obtain ext where
    "tr' = tr @ ext" "list_all (\<lambda>c. c = PathExists filePath \<or> c = WaitForTimeout 1000) ext"
    by auto
  with assms show "\<exists>ext. tr' = tr @ ext \<and> list_all P ext"
    by (auto simp: list_all_iff)
qed

lemma emits_navigate:
  assumes "\<And>u. P (Goto u)" and "\<And>s v. P (WaitForSelector s v)"
  shows "emits P (navigateToInvoicesPage e h)"
  unfolding navigateToInvoicesPage_def
  by (intro emits_then emits_on_page emits_perform assms)

lemma emits_saveInvoice:
  assumes "P (SetDownloadBehavior downloadPath)" and "\<And>s v. P (WaitForSelector s v)"
    and "\<And>s. P (Click s)" and "P (PathExists (downloadPath @ ''/'' @ fileName h))"
    and "P (WaitForTimeout 1000)" and "P (Report ''success'' ''Invoice saved'')"
    and "P (Rename (downloadPath @ ''/'' @ fileName h) (downloadPath @ ''/'' @ newFileName lib h row))"
    and "\<And>args. P (PrintWithFilepath args)"
  shows "emits P (saveInvoice e lib h downloadPath row)"
  unfolding saveInvoice_def
  by (intro emits_then emits_on_page emits_perform emits_emit emits_print emits_waitUntil assms)

lemma emits_processRowItem:
  assumes "P (SetDownloadBehavior (downloadDir h))" and "\<And>s v. P (WaitForSelector s v)"
    and "\<And>s. P (Click s)" and "P (PathExists (downloadDir h @ ''/'' @ fileName h))"
    and "P (WaitForTimeout 1000)" and "P (Report ''success'' ''Invoice saved'')"
    and "P (Rename (downloadDir h @ ''/'' @ fileName h) (downloadDir h @ ''/'' @ newFileName lib h row))"
    and "\<And>args. P (PrintWithFilepath args)"
  shows "emits P (processRowItem e lib h row)"
  unfolding processRowItem_def
  by (intro emits_then emits_on_page emits_perform emits_saveInvoice assms)

section \<open>Properties of the run\<close>

lemma returnsD: "returns Q m \<Longrightarrow> m tr = Some (Inr x, tr') \<Longrightarrow> Q x"
  by (auto simp: returns_def)

lemma returns_return: "Q x \<Longrightarrow> returns Q (io_return x)"
  by (simp add: returns_def io_return_def)

lemma returns_bind:
  assumes "returns R m" and "\<And>x. R x \<Longrightarrow> returns Q (f x)"
  shows "returns Q (io_bind m f)"
  unfolding returns_def
proof (intro allI impI)
  fix tr y tr'
  assume run: "io_bind m f tr = Some (Inr y, tr')"
  then obtain x tr1 where m: "m tr = Some (Inr x, tr1)" and f: "f x tr1 = Some (Inr y, tr')"
    by (auto simp: io_bind_def split: option.splits sum.splits)
  from returnsD [OF assms(1) m] have "R x" .
  from returnsD [OF assms(2) [OF this] f] show "Q y" .
qed

lemma returns_any: "returns (\<lambda>x. True) m"
  by (simp add: returns_def)

lemma returns_then: "returns Q n \<Longrightarrow> returns Q (io_then m n)"
  unfolding io_then_def by (rule returns_bind [OF returns_any])

lemma returns_catch:
  assumes "returns Q m" and "\<And>err. returns Q (f err)"
  shows "returns Q (io_catch m f)"
  unfolding returns_def
proof (intro allI impI)
  fix tr y tr'
  assume run: "io_catch m f tr = Some (Inr y, tr')"
  then consider "m tr = Some (Inr y, tr')"
    | err tr1 where "m tr = Some (Inl err, tr1)" "f err tr1 = Some (Inr y, tr')"
    by (auto simp: io_catch_def split: option.splits sum.splits)
  then show "Q y"
  proof cases
    case 1
    from returnsD [OF assms(1) this] show ?thesis .
  next
    case 2
    from returnsD [OF assms(2) 2(2)] show ?thesis .
  qed
qed

lemma login_attempt_returns:
  "returns (\<lambda>early. early = None \<or> early = Some Undefined) (login_attempt e h)"
  unfolding login_attempt_def
  by (intro returns_catch returns_then returns_return) simp_all

lemma sample_run:
  "run sample_env sample_lib (sample_hunter february5) [] =
   Some (Inr Undefined,
   [Report ''info'' ''Initializing...'', Launch 1680 950, NewPage,
    Goto ''https://portal'', Report ''info'' ''Running...'',
    Report ''info'' ''Trying to login...'', Goto ''https://portal/login'',
    TypeText ''#user'' ''u'', TypeText ''#pass'' ''p'', Click ''#ok'',
    Click ''#go'', WaitForNavigation, WaitForTimeout 2000,
    Report ''info'' ''Logged in successfully'',
    Report ''info'' ''Downloading invoices'',
    Goto ''https://portal/invoices'', WaitForSelector ''li'' False,
    QueryAll ''li'', ExtractText ''li:nth-child(1) .d'',
    ExtractText ''li:nth-child(2) .d'', ExtractText ''li:nth-child(3) .d'',
    Report ''info'' ''Found 1 invoices'',
    PrintWithFilepath [''Saving invoices to'', ''/tmp/out/endesa/''],
    Progress 1, Report ''log'' ''--'',
    Report ''info'' ''Dowloading invoice for 05/03/2024'',
    Click ''li:nth-child(1) .a .b'', WaitForSelector ''#doc'' True,
    SetDownloadBehavior ''/tmp/out/endesa/'', WaitForSelector ''#dl'' False,
    Click ''#dl'', PathExists ''/tmp/out/endesa//factura.pdf'',
    Report ''success'' ''Invoice saved'',
    Rename ''/tmp/out/endesa//factura.pdf''
     ''/tmp/out/endesa//05-03-24.pdf'',
    PrintWithFilepath
     [''Invoice renamed to'', ''05-03-24.pdf'', ''success''],
    Tick, Report ''log'' ''--'',
    Report ''success'' ''Downloaded 1/1 invoices'', PageClose,
    BrowserClose])"
  by code_simp

text \<open>
  C6. Outcome classification. For every pair of counts, \<open>run\<close> reports it with one
  message whose level is the one of the outcome that the specification assigns to the
  pair: nothing to do when the total is 0, full success when the total equals the
  number downloaded, total failure when nothing was downloaded, partial success
  otherwise. Reporting always succeeds and adds nothing else to the history.
\<close>

theorem report_count_classifies:
  "\<exists>msg. report_count c tr =
     Some (Inr (), tr @ [Report (outcome_level (classify_spec (total c) (downloaded c))) msg])"
  by (simp add: report_count_def classify_spec_def print_def emit_def)

theorem report_count_classifies_witness:
  "report_count \<lparr>total = 5, downloaded = 5\<rparr> [] = Some (Inr (), [Report ''success'' ''Downloaded 5/5 invoices''])
   \<and> report_count \<lparr>total = 5, downloaded = 0\<rparr> [] = Some (Inr (), [Report ''error'' ''Downloaded 0/5 invoices''])
   \<and> report_count \<lparr>total = 5, downloaded = 3\<rparr> [] = Some (Inr (), [Report ''info'' ''Downloaded 3/5 invoices''])
   \<and> report_count \<lparr>total = 0, downloaded = 0\<rparr> [] = Some (Inr (), [Report ''warn'' ''No invoices found to download''])"
proof -
  have d: "digits 5 = ''5''" "digits 3 = ''3''" "digits 0 = ''0''"
    by (simp_all add: digits.simps digit_char_def)
  show ?thesis
    using report_count_classifies [of "\<lparr>total = 5, downloaded = 5\<rparr>" "[]"]
      report_count_classifies [of "\<lparr>total = 5, downloaded = 0\<rparr>" "[]"]
      report_count_classifies [of "\<lparr>total = 5, downloaded = 3\<rparr>" "[]"]
      report_count_classifies [of "\<lparr>total = 0, downloaded = 0\<rparr>" "[]"]
    by (simp add: report_count_def print_def emit_def d)
qed

text \<open>
  C5, as amended. \<open>run\<close> gives no value to its caller: whenever it settles without an
  exception, its result is \<open>undefined\<close>. The two counts are the result of
  \<open>downloadInvoices\<close>, which \<open>run\<close> only reports.
\<close>

theorem run_returns_undefined:
  assumes "run e lib h0 tr = Some (Inr v, tr')"
  shows "v = Undefined"
proof -
  have "returns (\<lambda>v. v = Undefined) (run e lib h0)"
    unfolding run_def
  proof (rule returns_bind [OF returns_any], rule returns_then,
      rule returns_bind [OF login_attempt_returns])
    fix h and early :: "run_value option"
    assume "early = None \<or> early = Some Undefined"
    then show "returns (\<lambda>v. v = Undefined)
        (case early of None \<Rightarrow> io_then (download_attempt e lib h)
                                   (io_then (teardown e h) (io_return Undefined))
         | Some v \<Rightarrow> io_return v)"
      by (auto intro!: returns_then returns_return)
  qed
  from returnsD [OF this assms] show ?thesis .
qed

theorem run_returns_undefined_witness:
  "\<exists>tr'. run sample_env sample_lib (sample_hunter february5) [] = Some (Inr Undefined, tr')"
proof -
  obtain v tr' where r: "run sample_env sample_lib (sample_hunter february5) [] = Some (Inr v, tr')"
    using sample_run by blast
  from run_returns_undefined [OF r] r show ?thesis by blast
qed

text \<open>
  C5, as stated, fails: in the sample portal one invoice is found and downloaded, and
  the caller of \<open>run\<close> receives \<open>undefined\<close>, not an object with the counts.
\<close>

theorem run_result_counterexample:
  "\<not> (\<exists>c tr'. run sample_env sample_lib (sample_hunter february5) [] = Some (Inr (CountObject c), tr'))
   \<and> (\<exists>tr'. run sample_env sample_lib (sample_hunter february5) [] = Some (Inr Undefined, tr')
          \<and> Report ''success'' ''Downloaded 1/1 invoices'' \<in> set tr')"
  by (simp add: sample_run)

section \<open>Properties of the polling\<close>

lemma polls_Suc: "polls p (Suc n) = [PathExists p, WaitForTimeout 1000] @ polls p n"
  by (simp add: polls_def)

lemma file_seen_Suc:
  "file_seen e p (tr @ [PathExists p, WaitForTimeout 1000]) n = file_seen e p tr (Suc n)"
  by (simp add: file_seen_def polls_Suc)

lemma waitUntil_found:
  assumes "page h = Some pg"
  shows "file_seen e p tr n \<Longrightarrow> (\<And>k. k < n \<Longrightarrow> \<not> file_seen e p tr k) \<Longrightarrow>
    waitUntilFileIsDownloaded e h p tr = Some (Inr (), tr @ polls p n @ [PathExists p])"
proof (induction n arbitrary: tr)
  case 0
  then have "pathExists e tr p" by (simp add: file_seen_def polls_def)
  then show ?case
    by (subst waitUntilFileIsDownloaded.simps) (simp add: polls_def)
next
  case (Suc n)
  from Suc.prems(2) [of 0] have absent: "\<not> pathExists e tr p"
    by (simp add: file_seen_def polls_def)
  let ?tr = "tr @ [PathExists p, WaitForTimeout 1000]"
  have seen: "file_seen e p ?tr n"
    using Suc.prems(1) by (simp add: file_seen_Suc)
  have unseen: "\<And>k. k < n \<Longrightarrow> \<not> file_seen e p ?tr k"
    using Suc.prems(2) by (simp add: file_seen_Suc)
  have "waitUntilFileIsDownloaded e h p tr = waitUntilFileIsDownloaded e h p ?tr"
    using absent assms by (subst waitUntilFileIsDownloaded.simps) simp
  also have "\<dots> = Some (Inr (), ?tr @ polls p n @ [PathExists p])"
    by (rule Suc.IH [OF seen unseen])
  finally show ?case by (simp add: polls_Suc)
qed

lemma waitUntil_settles_seen:
  assumes "waitUntilFileIsDownloaded e h p tr = Some y" and "page h = Some pg"
  shows "\<exists>n. file_seen e p tr n"
  using assms
proof (induction rule: waitUntilFileIsDownloaded.raw_induct [rotated 1, consumes 1])
  case (1 wait e h p tr y)
  show ?case
  proof (cases "pathExists e tr p")
    case True
    then have "file_seen e p tr 0" by (simp add: file_seen_def polls_def)
    then show ?thesis ..
  next
    case False
    with 1(2,3) have "wait e h p (tr @ [PathExists p, WaitForTimeout 1000]) = Some y"
      by simp
    from 1(1) [OF this 1(3)] obtain n where "file_seen e p (tr @ [PathExists p, WaitForTimeout 1000]) n" ..
    then have "file_seen e p tr (Suc n)" by (simp add: file_seen_Suc)
    then show ?thesis ..
  qed
qed

lemma downloadInvoices_without_page:
  "page h = None \<Longrightarrow> downloadInvoices e lib h tr = Some (Inl (Error ''Missing init call''), tr)"
  by (simp add: downloadInvoices_def io_throw_def)

text \<open>
  C8. \<open>waitUntilFileIsDownloaded\<close>, with the page there (as it is wherever
  \<open>downloadInvoices\<close> gets to it): when the file is absent at every check, it never
  settles; when check number \<open>n\<close> is the first to find the file, it returns after
  exactly \<open>n\<close> rounds of a check and a wait of 1000 milliseconds and the final check,
  for every \<open>n\<close>; and it never settles with an exception.
\<close>

theorem waitUntilFileIsDownloaded_polls:
  assumes "page h = Some pg"
  shows "((\<forall>n. \<not> file_seen e p tr n) \<longrightarrow> waitUntilFileIsDownloaded e h p tr = None)
    \<and> (\<forall>n. file_seen e p tr n \<and> (\<forall>k<n. \<not> file_seen e p tr k) \<longrightarrow>
          waitUntilFileIsDownloaded e h p tr = Some (Inr (), tr @ polls p n @ [PathExists p]))
    \<and> (\<forall>err tr'. waitUntilFileIsDownloaded e h p tr \<noteq> Some (Inl err, tr'))"
proof (intro conjI allI impI)
  assume never: "\<forall>n. \<not> file_seen e p tr n"
  show "waitUntilFileIsDownloaded e h p tr = None"
  proof (cases "waitUntilFileIsDownloaded e h p tr")
    case (Some y)
    from waitUntil_settles_seen [OF this assms] never show ?thesis by blast
  qed simp
next
  fix n
  assume "file_seen e p tr n \<and> (\<forall>k<n. \<not> file_seen e p tr k)"
  then show "waitUntilFileIsDownloaded e h p tr = Some (Inr (), tr @ polls p n @ [PathExists p])"
    using waitUntil_found [OF assms, of e p tr n] by blast
next
  fix err tr'
  show "waitUntilFileIsDownloaded e h p tr \<noteq> Some (Inl err, tr')"
    using waitUntil_settles [of e h p tr "(Inl err, tr')"] by auto
qed

theorem waitUntilFileIsDownloaded_polls_witness:
  "waitUntilFileIsDownloaded late_env (started_hunter february5) ''f'' [] =
     Some (Inr (), [PathExists ''f'', WaitForTimeout 1000, PathExists ''f'', WaitForTimeout 1000,
                    PathExists ''f''])
   \<and> waitUntilFileIsDownloaded absent_env (started_hunter february5) ''f'' [] = None"
proof -
  have pg: "page (started_hunter february5) = Some ()"
    by (simp add: started_hunter_def)
  have seen: "file_seen late_env ''f'' [] (Suc (Suc 0))"
    by (simp add: file_seen_def polls_def late_env_def)
  have unseen: "\<forall>k<Suc (Suc 0). \<not> file_seen late_env ''f'' [] k"
    by (auto simp: less_Suc_eq file_seen_def polls_def late_env_def)
  have never: "\<forall>n. \<not> file_seen absent_env ''f'' [] n"
    by (simp add: file_seen_def absent_env_def)
  show ?thesis
    using waitUntilFileIsDownloaded_polls [OF pg, of late_env "''f''" "[]"]
      waitUntilFileIsDownloaded_polls [OF pg, of absent_env "''f''" "[]"]
      seen unseen never
    by (auto simp: polls_def)
qed

section \<open>Properties of runs that settle\<close>

lemma settlesD: "settles m \<Longrightarrow> \<exists>r tr'. m tr = Some (r, tr')"
  by (simp add: settles_def)

lemma settles_return: "settles (io_return x)"
  by (simp add: settles_def io_return_def)

lemma settles_throw: "settles (io_throw err)"
  by (simp add: settles_def io_throw_def)

lemma settles_perform: "settles (perform e c)"
  by (simp add: settles_def perform_def)

lemma settles_emit: "settles (emit c)"
  by (simp add: settles_def emit_def)

lemma settles_print: "settles (print msg type)"
  by (simp add: print_def settles_emit)

lemma settles_bind:
  assumes "settles m" and "\<And>x. settles (f x)"
  shows "settles (io_bind m f)"
  unfolding settles_def
proof
  fix tr
  from settlesD [OF assms(1)] obtain r tr1 where m: "m tr = Some (r, tr1)" by blast
  show "\<exists>r' tr'. io_bind m f tr = Some (r', tr')"
  proof (cases r)
    case (Inl err)
    with m show ?thesis by (simp add: io_bind_def)
  next
    case (Inr x)
    from settlesD [OF assms(2)] obtain r' tr' where "f x tr1 = Some (r', tr')" by blast
    with m Inr show ?thesis by (simp add: io_bind_def)
  qed
qed

lemma settles_then: "settles m \<Longrightarrow> settles n \<Longrightarrow> settles (io_then m n)"
  by (simp add: io_then_def settles_bind)

lemma settles_catch:
  assumes "settles m" and "\<And>err. settles (f err)"
  shows "settles (io_catch m f)"
  unfolding settles_def
proof
  fix tr
  from settlesD [OF assms(1)] obtain r tr1 where m: "m tr = Some (r, tr1)" by blast
  show "\<exists>r' tr'. io_catch m f tr = Some (r', tr')"
  proof (cases r)
    case (Inr x)
    with m show ?thesis by (simp add: io_catch_def)
  next
    case (Inl err)
    from settlesD [OF assms(2)] obtain r' tr' where "f err tr1 = Some (r', tr')" by blast
    with m Inl show ?thesis by (simp add: io_catch_def)
  qed
qed

lemma settles_on_page: "settles m \<Longrightarrow> settles (on_page h m)"
  by (simp add: on_page_def settles_return split: option.split)

lemma settles_if: "settles a \<Longrightarrow> settles b \<Longrightarrow> settles (if c then a else b)"
  by simp

lemma settles_waitUntil:
  assumes "page h = Some pg" and "files_appear e"
  shows "settles (waitUntilFileIsDownloaded e h p)"
  unfolding settles_def
proof
  fix tr
  from assms(2) obtain n where "file_seen e p tr n"
    unfolding files_appear_def by blast
  then obtain k where "file_seen e p tr k" "\<forall>j<k. \<not> file_seen e p tr j"
    using exists_least_iff [of "file_seen e p tr"] by blast
  from waitUntil_found [OF assms(1) this(1)] this(2)
  show "\<exists>r tr'. waitUntilFileIsDownloaded e h p tr = Some (r, tr')" by blast
qed

lemma settles_navigate: "settles (navigateToInvoicesPage e h)"
  unfolding navigateToInvoicesPage_def
  by (intro settles_then settles_on_page settles_perform)

lemma settles_saveInvoice:
  assumes "page h = Some pg" and "files_appear e"
  shows "settles (saveInvoice e lib h downloadPath row)"
  unfolding saveInvoice_def
  by (intro settles_then settles_on_page settles_perform settles_emit settles_print
      settles_waitUntil [OF assms])

lemma settles_processRowItem:
  assumes "page h = Some pg" and "files_appear e"
  shows "settles (processRowItem e lib h row)"
  unfolding processRowItem_def
  by (intro settles_then settles_on_page settles_perform settles_saveInvoice [OF assms])

lemma settles_downloadLoop:
  assumes "page h = Some pg" and "files_appear e"
  shows "settles (downloadLoop e lib h i c)"
proof (induction "length (rowsToProcess h) - i" arbitrary: i c)
  case 0
  then show ?case
    by (subst downloadLoop.simps) (simp add: settles_return)
next
  case (Suc k)
  then have lt: "i < length (rowsToProcess h)" and k: "k = length (rowsToProcess h) - (i + 1)"
    by auto
  show ?case
    apply (subst downloadLoop.simps)
    apply (simp only: lt if_True Let_def)
    apply (intro settles_then settles_bind settles_catch settles_if settles_return settles_print
        settles_emit settles_navigate settles_processRowItem [OF assms] Suc.hyps(1) [OF k])
    done
qed

lemma sample_files_appear: "files_appear sample_env" "files_appear flaky_env"
  by (auto simp: files_appear_def file_seen_def sample_env_def flaky_env_def)

lemma succeedsD: "succeeds m \<Longrightarrow> \<exists>x tr'. m tr = Some (Inr x, tr')"
  by (simp add: succeeds_def)

lemma succeeds_perform: "never_rejects e \<Longrightarrow> succeeds (perform e c)"
  by (simp add: succeeds_def perform_def never_rejects_def)

lemma succeeds_emit: "succeeds (emit c)"
  by (simp add: succeeds_def emit_def)

lemma succeeds_print: "succeeds (print msg type)"
  by (simp add: print_def succeeds_emit)

lemma succeeds_then:
  assumes "succeeds m" and "succeeds n"
  shows "succeeds (io_then m n)"
  unfolding succeeds_def
proof
  fix tr
  from succeedsD [OF assms(1)] obtain x tr1 where m: "m tr = Some (Inr x, tr1)" by blast
  from succeedsD [OF assms(2)] obtain y tr' where "n tr1 = Some (Inr y, tr')" by blast
  with m show "\<exists>y tr'. io_then m n tr = Some (Inr y, tr')"
    by (simp add: io_then_def io_bind_def)
qed

lemma succeeds_on_page: "succeeds m \<Longrightarrow> succeeds (on_page h m)"
  by (simp add: on_page_def succeeds_def io_return_def split: option.split)

lemma succeeds_waitUntil:
  assumes "page h = Some pg" and "files_appear e"
  shows "succeeds (waitUntilFileIsDownloaded e h p)"
  unfolding succeeds_def
proof
  fix tr
  from settlesD [OF settles_waitUntil [OF assms]] obtain r tr'
    where w: "waitUntilFileIsDownloaded e h p tr = Some (r, tr')" by blast
  from waitUntil_settles [OF w] have "r = Inr ()" by simp
  with w show "\<exists>x tr'. waitUntilFileIsDownloaded e h p tr = Some (Inr x, tr')" by blast
qed

lemma succeeds_saveInvoice:
  assumes "page h = Some pg" and "files_appear e" and "never_rejects e"
  shows "succeeds (saveInvoice e lib h downloadPath row)"
  unfolding saveInvoice_def
  by (intro succeeds_then succeeds_on_page succeeds_perform succeeds_emit succeeds_print
      succeeds_waitUntil [OF assms(1,2)] assms(3))

lemma sample_never_rejects: "never_rejects sample_env"
  by (simp add: never_rejects_def sample_env_def)

section \<open>Properties of saving an invoice\<close>

lemma io_then_assoc: "io_then (io_then m n) k = io_then m (io_then n k)"
  by (rule ext) (simp add: io_then_def io_bind_def split: option.splits sum.splits prod.splits)

lemma io_then_Inr:
  assumes "io_then m n tr = Some (Inr y, tr')"
  shows "\<exists>x tr1. m tr = Some (Inr x, tr1) \<and> n tr1 = Some (Inr y, tr')"
  using assms by (auto simp: io_then_def io_bind_def split: option.splits sum.splits)

lemma format_date_DD_MM_YY: "format_date 2024 3 5 ''DD-MM-YY'' = Some ''05-03-24''"
  by code_simp

lemma sample_saveInvoice:
  "saveInvoice sample_env sample_lib (started_hunter february5) ''/tmp/out/endesa/'' march5_row [] =
   Some (Inr (),
     [SetDownloadBehavior ''/tmp/out/endesa/'', WaitForSelector ''#dl'' False, Click ''#dl'',
      PathExists ''/tmp/out/endesa//factura.pdf'', Report ''success'' ''Invoice saved'',
      Rename ''/tmp/out/endesa//factura.pdf'' ''/tmp/out/endesa//05-03-24.pdf'',
      PrintWithFilepath [''Invoice renamed to'', ''05-03-24.pdf'', ''success'']])"
  by code_simp

lemma stands_for_itself_not_token:
  assumes "stands_for_itself c"
  shows "c \<noteq> CHR ''Y''" "c \<noteq> CHR ''M''" "c \<noteq> CHR ''D''"
  using assms by (auto simp: stands_for_itself_def is_letter_def)

lemma takeWhile_other: "rest = [] \<or> hd rest \<noteq> c \<Longrightarrow> takeWhile (\<lambda>x. x = c) rest = []"
  by (cases rest) auto

lemma format_tokens_literal:
  "stands_for_itself c \<Longrightarrow>
   format_tokens y mo d (c # rest) = map_option (\<lambda>s. c # s) (format_tokens y mo d rest)"
  by (subst format_tokens.simps) (simp add: stands_for_itself_not_token)

lemma format_tokens_token:
  assumes "rest = [] \<or> hd rest \<noteq> hd (token_letters t)" and "0 \<le> y" and "y \<le> 9999"
  shows "format_tokens y mo d (token_letters t @ rest) =
    map_option (\<lambda>s. token_text y mo d t @ s) (format_tokens y mo d rest)"
proof (cases t)
  case Year4
  with assms show ?thesis
    by (subst format_tokens.simps) (simp add: takeWhile_other)
next
  case Year2
  with assms show ?thesis
    by (subst format_tokens.simps) (simp add: takeWhile_other)
next
  case Month2
  with assms show ?thesis
    by (subst format_tokens.simps) (simp add: takeWhile_other)
next
  case Month1
  with assms show ?thesis
    by (subst format_tokens.simps) (simp add: takeWhile_other)
next
  case Day2
  with assms show ?thesis
    by (subst format_tokens.simps) (simp add: takeWhile_other)
next
  case Day1
  with assms show ?thesis
    by (subst format_tokens.simps) (simp add: takeWhile_other)
qed

lemma pattern_of_head:
  assumes "well_formed (Token t # its)"
  shows "pattern_of its = [] \<or> hd (pattern_of its) \<noteq> hd (token_letters t)"
proof (cases its)
  case Nil
  then show ?thesis by (simp add: pattern_of_def)
next
  case (Cons it rest)
  show ?thesis
  proof (cases it)
    case (Literal c)
    with assms Cons have "stands_for_itself c" by simp
    from stands_for_itself_not_token [OF this] Literal Cons show ?thesis
      by (cases t) (simp_all add: pattern_of_def)
  next
    case (Token u)
    with assms Cons have "hd (token_letters t) \<noteq> hd (token_letters u)" by simp
    with Token Cons show ?thesis
      by (cases u) (simp_all add: pattern_of_def)
  qed
qed

lemma format_tokens_items:
  assumes "0 \<le> y" and "y \<le> 9999"
  shows "well_formed its \<Longrightarrow> format_tokens y mo d (pattern_of its) = Some (text_of y mo d its)"
proof (induction its)
  case Nil
  show ?case
    by (subst format_tokens.simps) (simp add: pattern_of_def text_of_def)
next
  case (Cons it its)
  show ?case
  proof (cases it)
    case (Literal c)
    with Cons show ?thesis
      by (simp add: pattern_of_def text_of_def format_tokens_literal)
  next
    case (Token t)
    with Cons.prems have wf: "well_formed its" by simp
    from Token Cons.prems have hd: "pattern_of its = [] \<or> hd (pattern_of its) \<noteq> hd (token_letters t)"
      by (intro pattern_of_head) simp
    have "format_tokens y mo d (pattern_of (it # its)) =
        format_tokens y mo d (token_letters t @ pattern_of its)"
      using Token by (simp add: pattern_of_def)
    also have "\<dots> = map_option (\<lambda>s. token_text y mo d t @ s) (format_tokens y mo d (pattern_of its))"
      by (rule format_tokens_token [OF hd assms])
    also have "\<dots> = Some (text_of y mo d (it # its))"
      using Cons.IH [OF wf] Token by (simp add: text_of_def)
    finally show ?thesis .
  qed
qed

lemma pattern_of_empty: "pattern_of its = [] \<longleftrightarrow> its = []"
proof (cases its)
  case Nil
  then show ?thesis by (simp add: pattern_of_def)
next
  case (Cons it rest)
  have "item_letters it \<noteq> []"
  proof (cases it)
    case (Token t)
    then show ?thesis by (cases t) simp_all
  next
    case (Literal c)
    then show ?thesis by simp
  qed
  with Cons show ?thesis by (simp add: pattern_of_def)
qed

lemma format_date_items:
  assumes "0 \<le> y" and "y \<le> 9999" and "its \<noteq> []" and "well_formed its"
  shows "format_date y mo d (pattern_of its) = Some (text_of y mo d its)"
  using assms by (simp add: format_date_def pattern_of_empty format_tokens_items)

lemma moment_format_items:
  assumes "0 \<le> y" and "y \<le> 9999" and "its \<noteq> []" and "well_formed its"
  shows "moment_format lib (Valid t y mo d) (pattern_of its) = text_of y mo d its"
  using assms by (simp add: moment_format_def format_date_items)

lemma sample_patterns:
  "well_formed day_month_year" "pattern_of day_month_year = ''DD-MM-YY''"
  "well_formed year_month_day" "pattern_of year_month_day = ''YYYY.M.D''"
  "day_month_year \<noteq> []" "year_month_day \<noteq> []"
  by (simp_all add: day_month_year_def year_month_day_def pattern_of_def stands_for_itself_def
      is_letter_def)

lemma sample_texts:
  "text_of 2024 3 5 day_month_year = ''05-03-24''"
  "text_of 2024 3 5 year_month_day = ''2024.3.5''"
  by code_simp+

text \<open>
  C7. Rename determinism. Whenever \<open>saveInvoice\<close> returns, it has renamed exactly one
  file: the downloaded file \<open>invoiceName.invoiceExtension\<close> in the download path,
  to the issue date of the record formatted with the configured pattern, a dot and the
  configured extension, in the same path. Formatted means what the specification says it
  means: for a date with a year from 0 to 9999 and a configured pattern that is a
  non-empty well-formed sequence of the tokens \<open>YYYY\<close>, \<open>YY\<close>,
  \<open>MM\<close>, \<open>M\<close>, \<open>DD\<close>, \<open>D\<close> and of characters that
  stand for themselves, the name is the text in which every token is replaced by its
  field of the date. For the issue date 2024-03-05 and the pattern \<open>DD-MM-YY\<close>
  that name is \<open>05-03-24\<close>, a dot and the extension. And \<open>saveInvoice\<close>
  does return when the page is there, no call rejects and the file appears.
\<close>

theorem saveInvoice_renames_to_formatted_date:
  "(\<forall>tr'. saveInvoice e lib h downloadPath row tr = Some (Inr (), tr') \<longrightarrow>
      (\<exists>ext. tr' = tr @ ext
        \<and> filter is_rename ext =
            [Rename (downloadPath @ ''/'' @ invoiceName (endesa h) @ ''.'' @ invoiceExtension (endesa h))
               (downloadPath @ ''/'' @ moment_format lib (date row) (invoiceDateFormat h)
                  @ ''.'' @ invoiceExtension (endesa h))]))
   \<and> (\<forall>t y mo d its. date row = Valid t y mo d \<and> 0 \<le> y \<and> y \<le> 9999
          \<and> its \<noteq> [] \<and> well_formed its \<and> invoiceDateFormat h = pattern_of its \<longrightarrow>
          moment_format lib (date row) (invoiceDateFormat h) = text_of y mo d its)
   \<and> (\<forall>t. date row = Valid t 2024 3 5 \<and> invoiceDateFormat h = ''DD-MM-YY'' \<longrightarrow>
          moment_format lib (date row) (invoiceDateFormat h) @ ''.'' @ invoiceExtension (endesa h)
            = ''05-03-24.'' @ invoiceExtension (endesa h))
   \<and> (page h \<noteq> None \<and> files_appear e \<and> never_rejects e \<longrightarrow>
        (\<exists>tr'. saveInvoice e lib h downloadPath row tr = Some (Inr (), tr')))"
proof (intro conjI allI impI)
  fix tr'
  assume run: "saveInvoice e lib h downloadPath row tr = Some (Inr (), tr')"
  let ?before = "io_then (on_page h (perform e (SetDownloadBehavior downloadPath)))
       (io_then (on_page h (perform e (WaitForSelector (sel_downloadButton (endesa h)) False)))
          (io_then (on_page h (perform e (Click (sel_downloadButton (endesa h)))))
             (waitUntilFileIsDownloaded e h (downloadPath @ ''/'' @ fileName h))))"
  let ?rename = "Rename (downloadPath @ ''/'' @ fileName h) (downloadPath @ ''/'' @ newFileName lib h row)"
  let ?after = "io_then (print ''Invoice saved'' ''success'')
        (io_then (perform e ?rename)
           (emit (PrintWithFilepath [''Invoice renamed to'', newFileName lib h row, ''success''])))"
  have split: "saveInvoice e lib h downloadPath row = io_then ?before ?after"
    by (simp add: saveInvoice_def io_then_assoc)
  from run obtain x t1 where before: "?before tr = Some (Inr x, t1)"
    and after: "?after t1 = Some (Inr (), tr')"
    unfolding split by (blast dest: io_then_Inr)
  have "emits (\<lambda>c. \<not> is_rename c) ?before"
    by (intro emits_then emits_on_page emits_perform emits_waitUntil) (simp_all add: is_rename_def)
  from emitsD [OF this before] obtain ext0 where
    ext0: "t1 = tr @ ext0" "list_all (\<lambda>c. \<not> is_rename c) ext0"
    by blast
  have tr': "tr' = t1 @ [Report ''success'' ''Invoice saved'', ?rename,
      PrintWithFilepath [''Invoice renamed to'', newFileName lib h row, ''success'']]"
    using after
    by (auto simp: io_then_def io_bind_def print_def emit_def perform_def split: option.splits)
  have none: "filter is_rename ext0 = []"
    using ext0(2) by (simp add: list_all_iff filter_empty_conv)
  have "filter is_rename (ext0 @ [Report ''success'' ''Invoice saved'', ?rename,
      PrintWithFilepath [''Invoice renamed to'', newFileName lib h row, ''success'']]) = [?rename]"
    by (simp add: none is_rename_def)
  then show "\<exists>ext. tr' = tr @ ext
        \<and> filter is_rename ext =
            [Rename (downloadPath @ ''/'' @ invoiceName (endesa h) @ ''.'' @ invoiceExtension (endesa h))
               (downloadPath @ ''/'' @ moment_format lib (date row) (invoiceDateFormat h)
                  @ ''.'' @ invoiceExtension (endesa h))]"
    using tr' ext0(1) by (simp add: fileName_def newFileName_def)
next
  fix t y mo d its
  assume "date row = Valid t y mo d \<and> 0 \<le> y \<and> y \<le> 9999
          \<and> its \<noteq> [] \<and> well_formed its \<and> invoiceDateFormat h = pattern_of its"
  then show "moment_format lib (date row) (invoiceDateFormat h) = text_of y mo d its"
    by (simp add: moment_format_items)
next
  fix t
  assume "date row = Valid t 2024 3 5 \<and> invoiceDateFormat h = ''DD-MM-YY''"
  then show "moment_format lib (date row) (invoiceDateFormat h) @ ''.'' @ invoiceExtension (endesa h)
            = ''05-03-24.'' @ invoiceExtension (endesa h)"
    by (simp add: moment_format_def format_date_DD_MM_YY)
next
  assume "page h \<noteq> None \<and> files_appear e \<and> never_rejects e"
  then obtain pg where "page h = Some pg" "files_appear e" "never_rejects e" by auto
  from succeedsD [OF succeeds_saveInvoice [OF this]]
  show "\<exists>tr'. saveInvoice e lib h downloadPath row tr = Some (Inr (), tr')" by simp
qed

theorem saveInvoice_renames_to_formatted_date_witness:
  "page (started_hunter february5) \<noteq> None \<and> files_appear sample_env \<and> never_rejects sample_env
   \<and> saveInvoice sample_env sample_lib (started_hunter february5) ''/tmp/out/endesa/'' march5_row [] =
   Some (Inr (),
     [SetDownloadBehavior ''/tmp/out/endesa/'', WaitForSelector ''#dl'' False, Click ''#dl'',
      PathExists ''/tmp/out/endesa//factura.pdf'', Report ''success'' ''Invoice saved'',
      Rename ''/tmp/out/endesa//factura.pdf'' ''/tmp/out/endesa//05-03-24.pdf'',
      PrintWithFilepath [''Invoice renamed to'', ''05-03-24.pdf'', ''success'']])
   \<and> date march5_row = Valid 1709596800000 2024 3 5
   \<and> invoiceDateFormat (started_hunter february5) = ''DD-MM-YY''
   \<and> moment_format sample_lib (date march5_row) (invoiceDateFormat (started_hunter february5))
        @ ''.'' @ invoiceExtension (endesa (started_hunter february5)) = ''05-03-24.pdf''
   \<and> well_formed year_month_day \<and> pattern_of year_month_day = ''YYYY.M.D''
   \<and> moment_format sample_lib (date march5_row) ''YYYY.M.D'' = ''2024.3.5''"
proof -
  have pg: "page (started_hunter february5) \<noteq> None"
    by (simp add: started_hunter_def)
  have d: "date march5_row = Valid 1709596800000 2024 3 5"
    by (simp add: march5_row_def march5_def)
  have f: "invoiceDateFormat (started_hunter february5) = ''DD-MM-YY''"
    by (simp add: started_hunter_def sample_hunter_def constructor_def sample_hunt_config_def)
  have x: "invoiceExtension (endesa (started_hunter february5)) = ''pdf''"
    by (simp add: started_hunter_def sample_hunter_def constructor_def sample_config_def)
  note th = saveInvoice_renames_to_formatted_date [of sample_env sample_lib
      "started_hunter february5" "''/tmp/out/endesa/''" march5_row "[]"]
  from th d f
  have a: "moment_format sample_lib (date march5_row) (invoiceDateFormat (started_hunter february5))
        @ ''.'' @ invoiceExtension (endesa (started_hunter february5))
      = ''05-03-24.'' @ invoiceExtension (endesa (started_hunter february5))"
    by blast
  let ?h = "(started_hunter february5)\<lparr>invoiceDateFormat := ''YYYY.M.D''\<rparr>"
  have f2: "invoiceDateFormat ?h = pattern_of year_month_day"
    by (simp add: sample_patterns)
  from saveInvoice_renames_to_formatted_date [of sample_env sample_lib ?h "''/tmp/out/endesa/''"
      march5_row "[]"] d f2 sample_patterns(3,6)
  have "moment_format sample_lib (date march5_row) (invoiceDateFormat ?h) =
      text_of 2024 3 5 year_month_day"
    by (elim conjE allE [of _ 1709596800000] allE [of _ 2024] allE [of _ 3] allE [of _ 5]
        allE [of _ year_month_day]) simp
  then have b: "moment_format sample_lib (date march5_row) ''YYYY.M.D'' = ''2024.3.5''"
    by (simp add: sample_texts)
  from a b sample_saveInvoice d f x pg sample_files_appear(1) sample_never_rejects sample_patterns
  show ?thesis by simp
qed

section \<open>Properties of the download loop\<close>

lemma downloadLoop_step:
  assumes "i < length (rowsToProcess h)"
  shows "downloadLoop e lib h i c tr =
    (case list_reopened e h i tr of
       None \<Rightarrow> None
     | Some (Inl err, t) \<Rightarrow> Some (Inl err, t)
     | Some (Inr u, t) \<Rightarrow>
         (case processRowItem e lib h (rowsToProcess h ! i) (t @ announced e h i) of
            None \<Rightarrow> None
          | Some (res, t') \<Rightarrow>
              downloadLoop e lib h (Suc i) (case res of Inl _ \<Rightarrow> c | Inr _ \<Rightarrow> Suc c)
                (t' @ concluded e (rowsToProcess h ! i) res)))"
  using assms
  by (subst downloadLoop.simps)
     (auto simp: list_reopened_def announced_def concluded_def attempt_of_def
        failure_of_def io_then_def io_bind_def
        io_catch_def io_return_def print_def emit_def Let_def
        split: option.splits sum.splits prod.splits)

lemma record_outcomes_step:
  assumes "i < length (rowsToProcess h)"
  shows "record_outcomes e lib h i tr =
     (case list_reopened e h i tr of
           None \<Rightarrow> None
         | Some (Inl err, t) \<Rightarrow> Some ([], Some err)
         | Some (Inr u, t) \<Rightarrow>
             (case processRowItem e lib h (rowsToProcess h ! i) (t @ announced e h i) of
                None \<Rightarrow> None
              | Some (res, t') \<Rightarrow>
                  map_option (\<lambda>(outs, stop). (res # outs, stop))
                    (record_outcomes e lib h (Suc i)
                       (t' @ concluded e (rowsToProcess h ! i) res))))"
  using assms by (subst record_outcomes.simps) simp

lemma processRowItem_quiet: "emits quiet (processRowItem e lib h row)"
  by (rule emits_processRowItem) (simp_all add: quiet_def is_attempt_def is_failure_def)

lemma list_reopened_quiet: "emits quiet (list_reopened e h i)"
  unfolding list_reopened_def
  by (intro emits_if emits_navigate emits_return) (simp_all add: quiet_def is_attempt_def is_failure_def)

lemma filter_quiet:
  assumes "list_all quiet xs"
  shows "filter is_attempt xs = []" "filter (\<lambda>c. c = Tick) xs = []" "filter is_failure xs = []"
  using assms by (auto simp: list_all_iff filter_empty_conv quiet_def)

lemma announced_observed:
  "filter is_attempt (announced e h i) = [attempt_of (rowsToProcess h ! i)]"
  "filter (\<lambda>c. c = Tick) (announced e h i) = []"
  "filter is_failure (announced e h i) = []"
  by (simp_all add: announced_def is_attempt_def is_failure_def attempt_of_def starts_with_def)

lemma concluded_observed:
  "filter is_attempt (concluded e row res) = []"
  "filter (\<lambda>c. c = Tick) (concluded e row res) = [Tick]"
  "length (filter is_failure (concluded e row res)) = raised [res]"
  by (simp_all add: concluded_def is_attempt_def is_failure_def failure_of_def starts_with_def
      raised_def split: sum.splits)

lemma raised_Cons: "raised (res # outs) = raised [res] + raised outs"
  by (simp add: raised_def)

lemma downloadLoop_outcomes:
  "downloadLoop e lib h i c tr = Some (r, tr') \<Longrightarrow> i \<le> length (rowsToProcess h) \<Longrightarrow>
    \<exists>outs stop ext. record_outcomes e lib h i tr = Some (outs, stop)
      \<and> tr' = tr @ ext
      \<and> i + length outs \<le> length (rowsToProcess h)
      \<and> (stop = None) = (i + length outs = length (rowsToProcess h))
      \<and> (stop = None \<or> 0 < i + length outs)
      \<and> r = (case stop of
                None \<Rightarrow> Inr (c + length outs - raised outs)
              | Some err \<Rightarrow> Inl err)
      \<and> (\<forall>err. stop = Some err \<longrightarrow>
            (\<exists>t0 t1. navigateToInvoicesPage e h t0 = Some (Inl err, t1)))
      \<and> filter is_attempt ext = map attempt_of (take (length outs) (drop i (rowsToProcess h)))
      \<and> length (filter (\<lambda>c. c = Tick) ext) = length outs
      \<and> length (filter is_failure ext) = raised outs"
proof (induction "length (rowsToProcess h) - i" arbitrary: i c tr)
  case 0
  then have "i = length (rowsToProcess h)" by simp
  with 0(2) show ?case
    by (simp add: downloadLoop.simps [of e lib h "length (rowsToProcess h)"]
        record_outcomes.simps [of e lib h "length (rowsToProcess h)"] io_return_def raised_def)
next
  case (Suc k)
  let ?rows = "rowsToProcess h"
  let ?row = "?rows ! i"
  from Suc.hyps(2) have lt: "i < length ?rows" and k: "k = length ?rows - Suc i"
    and le: "Suc i \<le> length ?rows"
    by auto
  have drop: "drop i ?rows = ?row # drop (Suc i) ?rows"
    using lt by (simp add: Cons_nth_drop_Suc)
  note step = downloadLoop_step [OF lt, of e lib c tr]
  note ostep = record_outcomes_step [OF lt, of e lib tr]
  from settlesD [OF settles_if [OF settles_navigate settles_return]]
  obtain nres t where nav: "list_reopened e h i tr = Some (nres, t)"
    unfolding list_reopened_def by blast
  from emitsD [OF list_reopened_quiet nav] obtain x0 where
    t: "t = tr @ x0" and x0: "list_all quiet x0"
    by blast
  show ?case
  proof (cases nres)
    case (Inl err)
    from Inl nav step Suc.prems(1) have r: "r = Inl err" "tr' = t" by simp_all
    from Inl nav ostep have "record_outcomes e lib h i tr = Some ([], Some err)" by simp
    moreover have i: "0 < i"
      using Inl nav by (cases i) (simp_all add: list_reopened_def io_return_def)
    moreover have "\<exists>t0 t1. navigateToInvoicesPage e h t0 = Some (Inl err, t1)"
      using Inl nav i by (auto simp: list_reopened_def)
    ultimately show ?thesis
      using r t lt by (simp add: raised_def filter_quiet [OF x0])
  next
    case (Inr u)
    show ?thesis
    proof (cases "processRowItem e lib h ?row (t @ announced e h i)")
      case None
      with step nav Inr Suc.prems(1) show ?thesis by simp
    next
      case (Some a)
      obtain res t' where a: "a = (res, t')" by (cases a)
      from emitsD [OF processRowItem_quiet] Some a obtain x where
        t': "t' = (t @ announced e h i) @ x" and x: "list_all quiet x"
        by blast
      let ?c = "case res of Inl _ \<Rightarrow> c | Inr _ \<Rightarrow> Suc c"
      from step nav Inr Some a Suc.prems(1)
      have "downloadLoop e lib h (Suc i) ?c (t' @ concluded e ?row res) = Some (r, tr')"
        by simp
      from Suc.hyps(1) [OF k this le] obtain outs stop ext where
        ext: "record_outcomes e lib h (Suc i) (t' @ concluded e ?row res) = Some (outs, stop)"
          "tr' = (t' @ concluded e ?row res) @ ext"
          "Suc i + length outs \<le> length ?rows"
          "(stop = None) = (Suc i + length outs = length ?rows)"
          "r = (case stop of None \<Rightarrow> Inr (?c + length outs - raised outs) | Some err \<Rightarrow> Inl err)"
          "\<forall>err. stop = Some err \<longrightarrow>
            (\<exists>t0 t1. navigateToInvoicesPage e h t0 = Some (Inl err, t1))"
          "filter is_attempt ext = map attempt_of (take (length outs) (drop (Suc i) ?rows))"
          "length (filter (\<lambda>c. c = Tick) ext) = length outs"
          "length (filter is_failure ext) = raised outs"
        by blast
      let ?ext = "x0 @ announced e h i @ x @ concluded e ?row res @ ext"
      have "record_outcomes e lib h i tr = Some (res # outs, stop)"
        using ostep nav Inr Some a ext(1) by simp
      moreover have "tr' = tr @ ?ext" using ext(2) t t' by simp
      moreover have "i + length (res # outs) \<le> length ?rows" using ext(3) by simp
      moreover have "(stop = None) = (i + length (res # outs) = length ?rows)"
        using ext(4) by simp
      moreover have "stop = None \<or> 0 < i + length (res # outs)" by simp
      moreover have "r = (case stop of
                None \<Rightarrow> Inr (c + length (res # outs) - raised (res # outs))
              | Some err \<Rightarrow> Inl err)"
        using ext(5) by (cases res) (auto simp: raised_def le_SucI Suc_diff_le split: option.splits)
      moreover note ext(6)
      moreover have "filter is_attempt ?ext =
          map attempt_of (take (length (res # outs)) (drop i ?rows))"
        using ext(7) drop
        by (simp add: announced_observed concluded_observed filter_quiet [OF x]
            filter_quiet [OF x0])
      moreover have "length (filter (\<lambda>c. c = Tick) ?ext) = length (res # outs)"
        using ext(8)
        by (simp add: announced_observed concluded_observed filter_quiet [OF x]
            filter_quiet [OF x0])
      moreover have "length (filter is_failure ?ext) = raised (res # outs)"
        using ext(9)
        by (simp add: announced_observed concluded_observed filter_quiet [OF x]
            filter_quiet [OF x0] raised_Cons [of res outs])
      ultimately show ?thesis by blast
    qed
  qed
qed

lemma navigation_goes_through:
  assumes "navigation_never_rejects e h"
  shows "navigateToInvoicesPage e h t0 \<noteq> Some (Inl err, t1)"
  using assms
  by (auto simp: navigation_never_rejects_def navigateToInvoicesPage_def on_page_def perform_def
      io_then_def io_bind_def io_return_def split: option.splits)

lemma flaky_loop:
  "downloadLoop flaky_env sample_lib three_rows_hunter 0 0 [] = Some (Inr 2, flaky_history)"
  by code_simp

lemma flaky_outcomes:
  "record_outcomes flaky_env sample_lib three_rows_hunter 0 [] =
     Some ([Inr (), Inl (Error ''stale''), Inr ()], None)"
  by code_simp

lemma flaky_navigation: "navigation_never_rejects flaky_env three_rows_hunter"
  by (simp add: navigation_never_rejects_def flaky_env_def sample_env_def)

lemma stalled_loop:
  "downloadLoop stalled_env sample_lib three_rows_hunter 0 0 [] =
     Some (Inl (Error ''net::ERR_TIMED_OUT''), stalled_history)"
  by code_simp

lemma stalled_outcomes:
  "record_outcomes stalled_env sample_lib three_rows_hunter 0 [] =
     Some ([Inr (), Inl (Error ''stale'')], Some (Error ''net::ERR_TIMED_OUT''))"
  by code_simp

lemma three_rows:
  "rowsToProcess three_rows_hunter = [march5_row, february5_row, january5_row]"
  "page three_rows_hunter \<noteq> None"
  by (simp_all add: three_rows_hunter_def started_hunter_def)

lemma sample_attempts:
  "attempt_of march5_row = Report ''info'' ''Dowloading invoice for 05/03/2024''"
  "attempt_of february5_row = Report ''info'' ''Dowloading invoice for 05/02/2024''"
  "attempt_of january5_row = Report ''info'' ''Dowloading invoice for 05/01/2024''"
  by (simp_all add: attempt_of_def march5_row_def february5_row_def january5_row_def)

text \<open>
  C2, as amended. Whenever the loop over the \<open>N\<close> selected records comes to an
  end, it has gone through the records in order as the replay does, and has printed an
  attempt and ticked the progress once for each record that was processed. An error
  raised while a record is opened or downloaded is caught and reported, once: the
  record does not increment the counter, and the loop goes on to the navigation back to
  the list for the next record. If no navigation rejects, all \<open>N\<close> records are processed and the
  loop returns \<open>N\<close> minus the number of records whose processing raised an error.
  The navigation is outside the \<open>try\<close>: if it rejects before a record, the loop
  ends there with the error of the navigation, that record and the later ones are not
  attempted, and no count is returned. When the navigation never rejects the loop ends
  with the count. And the loop does come to an end when the page is there and the files
  appear, whichever calls reject.
\<close>

theorem downloadLoop_isolates_failures:
  "(\<forall>r tr'. downloadLoop e lib h 0 0 tr = Some (r, tr') \<longrightarrow>
      (\<exists>outs stop ext. record_outcomes e lib h 0 tr = Some (outs, stop)
        \<and> tr' = tr @ ext
        \<and> filter is_attempt ext = map attempt_of (take (length outs) (rowsToProcess h))
        \<and> length (filter (\<lambda>c. c = Tick) ext) = length outs
        \<and> length (filter is_failure ext) = raised outs
        \<and> (case stop of
              None \<Rightarrow>
                length outs = length (rowsToProcess h)
                \<and> r = Inr (length (rowsToProcess h) - raised outs)
            | Some err \<Rightarrow>
                0 < length outs \<and> length outs < length (rowsToProcess h) \<and> r = Inl err
                \<and> (\<exists>t0 t1. navigateToInvoicesPage e h t0 = Some (Inl err, t1)))
        \<and> (navigation_never_rejects e h \<longrightarrow> stop = None)))
    \<and> (page h \<noteq> None \<and> files_appear e \<longrightarrow>
        (\<exists>r tr'. downloadLoop e lib h 0 0 tr = Some (r, tr')))"
proof (intro conjI allI impI)
  fix r tr'
  assume "downloadLoop e lib h 0 0 tr = Some (r, tr')"
  from downloadLoop_outcomes [OF this] obtain outs stop ext where
    o: "record_outcomes e lib h 0 tr = Some (outs, stop)"
      "tr' = tr @ ext"
      "length outs \<le> length (rowsToProcess h)"
      "(stop = None) = (length outs = length (rowsToProcess h))"
      "stop = None \<or> 0 < length outs"
      "r = (case stop of None \<Rightarrow> Inr (length outs - raised outs) | Some err \<Rightarrow> Inl err)"
      "\<forall>err. stop = Some err \<longrightarrow>
            (\<exists>t0 t1. navigateToInvoicesPage e h t0 = Some (Inl err, t1))"
      "filter is_attempt ext = map attempt_of (take (length outs) (rowsToProcess h))"
      "length (filter (\<lambda>c. c = Tick) ext) = length outs"
      "length (filter is_failure ext) = raised outs"
    by auto
  have "case stop of
          None \<Rightarrow>
            length outs = length (rowsToProcess h)
            \<and> r = Inr (length (rowsToProcess h) - raised outs)
        | Some err \<Rightarrow>
            0 < length outs \<and> length outs < length (rowsToProcess h) \<and> r = Inl err
            \<and> (\<exists>t0 t1. navigateToInvoicesPage e h t0 = Some (Inl err, t1))"
    using o(3-7) by (cases stop) auto
  moreover have "navigation_never_rejects e h \<longrightarrow> stop = None"
    using o(7) navigation_goes_through [of e h] by (cases stop) auto
  ultimately show "\<exists>outs stop ext. record_outcomes e lib h 0 tr = Some (outs, stop)
        \<and> tr' = tr @ ext
        \<and> filter is_attempt ext = map attempt_of (take (length outs) (rowsToProcess h))
        \<and> length (filter (\<lambda>c. c = Tick) ext) = length outs
        \<and> length (filter is_failure ext) = raised outs
        \<and> (case stop of
              None \<Rightarrow>
                length outs = length (rowsToProcess h)
                \<and> r = Inr (length (rowsToProcess h) - raised outs)
            | Some err \<Rightarrow>
                0 < length outs \<and> length outs < length (rowsToProcess h) \<and> r = Inl err
                \<and> (\<exists>t0 t1. navigateToInvoicesPage e h t0 = Some (Inl err, t1)))
        \<and> (navigation_never_rejects e h \<longrightarrow> stop = None)"
    using o(1,2,8,9,10) by blast
next
  assume "page h \<noteq> None \<and> files_appear e"
  then obtain pg where "page h = Some pg" and "files_appear e" by auto
  from settlesD [OF settles_downloadLoop [OF this]]
  show "\<exists>r tr'. downloadLoop e lib h 0 0 tr = Some (r, tr')" .
qed

theorem downloadLoop_isolates_failures_witness:
  "page three_rows_hunter \<noteq> None \<and> files_appear flaky_env
   \<and> navigation_never_rejects flaky_env three_rows_hunter
   \<and> length (rowsToProcess three_rows_hunter) = 3
   \<and> downloadLoop flaky_env sample_lib three_rows_hunter 0 0 [] = Some (Inr 2, flaky_history)
   \<and> record_outcomes flaky_env sample_lib three_rows_hunter 0 [] =
       Some ([Inr (), Inl (Error ''stale''), Inr ()], None)
   \<and> raised [Inr (), Inl (Error ''stale''), Inr ()] = 1
   \<and> length (filter (\<lambda>c. c = Tick) flaky_history) = 3
   \<and> length (filter is_failure flaky_history) = 1
   \<and> filter is_attempt flaky_history =
       [Report ''info'' ''Dowloading invoice for 05/03/2024'',
        Report ''info'' ''Dowloading invoice for 05/02/2024'',
        Report ''info'' ''Dowloading invoice for 05/01/2024'']
   \<and> downloadLoop stalled_env sample_lib three_rows_hunter 0 0 [] =
       Some (Inl (Error ''net::ERR_TIMED_OUT''), stalled_history)
   \<and> record_outcomes stalled_env sample_lib three_rows_hunter 0 [] =
       Some ([Inr (), Inl (Error ''stale'')], Some (Error ''net::ERR_TIMED_OUT''))
   \<and> length (filter (\<lambda>c. c = Tick) stalled_history) = 2
   \<and> filter is_attempt stalled_history =
       [Report ''info'' ''Dowloading invoice for 05/03/2024'',
        Report ''info'' ''Dowloading invoice for 05/02/2024'']
   \<and> (\<exists>t0 t1. navigateToInvoicesPage stalled_env three_rows_hunter t0 =
         Some (Inl (Error ''net::ERR_TIMED_OUT''), t1))"
proof -
  note th = downloadLoop_isolates_failures [of flaky_env sample_lib three_rows_hunter "[]"]
  from th three_rows(2) sample_files_appear(2)
  obtain r tr' where "downloadLoop flaky_env sample_lib three_rows_hunter 0 0 [] = Some (r, tr')"
    by blast
  with flaky_loop have r: "r = Inr 2" "tr' = flaky_history" by simp_all
  from th flaky_loop flaky_outcomes
  have a: "filter is_attempt flaky_history =
        map attempt_of (take 3 (rowsToProcess three_rows_hunter))
      \<and> length (filter (\<lambda>c. c = Tick) flaky_history) = 3
      \<and> length (filter is_failure flaky_history) = raised [Inr (), Inl (Error ''stale''), Inr ()]
      \<and> (Inr 2 :: error + nat) =
          Inr (length (rowsToProcess three_rows_hunter)
                 - raised [Inr (), Inl (Error ''stale''), Inr ()])"
    by auto
  note th2 = downloadLoop_isolates_failures [of stalled_env sample_lib three_rows_hunter "[]"]
  from th2 stalled_loop stalled_outcomes
  have b: "filter is_attempt stalled_history =
        map attempt_of (take (Suc (Suc 0)) (rowsToProcess three_rows_hunter))
      \<and> length (filter (\<lambda>c. c = Tick) stalled_history) = 2
      \<and> (\<exists>t0 t1. navigateToInvoicesPage stalled_env three_rows_hunter t0 =
            Some (Inl (Error ''net::ERR_TIMED_OUT''), t1))"
    by auto
  have c: "raised [Inr (), Inl (Error ''stale''), Inr ()] = 1"
    by (simp add: raised_def)
  from a b c show ?thesis
    using flaky_navigation flaky_loop flaky_outcomes stalled_loop stalled_outcomes three_rows
      sample_files_appear(2)
    by (simp add: sample_attempts)
qed

text \<open>
  C2, as stated, fails. In the portal where the browser is lost at the click on the
  action button of the first of three records, the error of that record is caught, the navigation back to the list for the second record rejects, and
  the loop ends with that error: the second and third records are not attempted and
  there is no count.
\<close>

theorem downloadLoop_navigation_counterexample:
  "rowsToProcess three_rows_hunter = [march5_row, february5_row, january5_row]
   \<and> processRowItem crashed_env sample_lib three_rows_hunter march5_row
        [Report ''log'' ''--'', Report ''info'' ''Dowloading invoice for 05/03/2024''] =
       Some (Inl (Error ''Target closed''),
         [Report ''log'' ''--'', Report ''info'' ''Dowloading invoice for 05/03/2024'',
          Click ''li:nth-child(1) .a .b''])
   \<and> downloadLoop crashed_env sample_lib three_rows_hunter 0 0 [] =
       Some (Inl (Error ''Target closed''),
         [Report ''log'' ''--'',
          Report ''info'' ''Dowloading invoice for 05/03/2024'',
          Click ''li:nth-child(1) .a .b'',
          Report ''error'' ''Failed to download invoice for 05/03/2024'', Tick,
          Report ''log'' ''--'', Goto ''https://portal/invoices''])"
proof (intro conjI)
  show "rowsToProcess three_rows_hunter = [march5_row, february5_row, january5_row]"
    by (rule three_rows(1))
  show "processRowItem crashed_env sample_lib three_rows_hunter march5_row
        [Report ''log'' ''--'', Report ''info'' ''Dowloading invoice for 05/03/2024''] =
       Some (Inl (Error ''Target closed''),
         [Report ''log'' ''--'', Report ''info'' ''Dowloading invoice for 05/03/2024'',
          Click ''li:nth-child(1) .a .b''])"
    by code_simp
  show "downloadLoop crashed_env sample_lib three_rows_hunter 0 0 [] =
       Some (Inl (Error ''Target closed''),
         [Report ''log'' ''--'',
          Report ''info'' ''Dowloading invoice for 05/03/2024'',
          Click ''li:nth-child(1) .a .b'',
          Report ''error'' ''Failed to download invoice for 05/03/2024'', Tick,
          Report ''log'' ''--'', Goto ''https://portal/invoices''])"
    by code_simp
qed

section \<open>Histories of the download phase\<close>

lemma emits_extractText: "P (ExtractText sel) \<Longrightarrow> emits P (extractTextFromElement e sel)"
  by (auto simp: emits_def extractTextFromElement_def)

lemma emits_queryAll: "P (QueryAll sel) \<Longrightarrow> emits P (queryAllElements e sel)"
  by (auto simp: emits_def queryAllElements_def)

lemma emits_findRows_from:
  assumes "\<And>s. P (ExtractText s)"
  shows "emits P (findRows_from e lib h n i result)"
proof (induction "n - i" arbitrary: i result)
  case 0
  then show ?case
    by (subst findRows_from.simps) (simp add: emits_return)
next
  case (Suc k)
  then have lt: "i < n" and k: "k = n - Suc i" by auto
  show ?case
    by (subst findRows_from.simps)
       (simp add: lt Let_def emits_bind emits_extractText assms Suc.hyps(1) [OF k])
qed

lemma emits_findRowsToProcess:
  assumes "\<And>s. P (ExtractText s)"
  shows "emits P (findRowsToProcess e lib h rows)"
  by (simp add: findRowsToProcess_def emits_throw emits_findRows_from assms split: option.split)

lemma emits_downloadLoop:
  assumes "\<And>u. P (Goto u)" and "\<And>s v. P (WaitForSelector s v)" and "\<And>s. P (Click s)"
    and "\<And>t m. P (Report t m)" and "P Tick" and "\<And>args. P (PrintWithFilepath args)"
    and "P (SetDownloadBehavior (downloadDir h))"
    and "P (PathExists (downloadDir h @ ''/'' @ fileName h))"
    and "P (WaitForTimeout 1000)"
    and "\<And>row. P (Rename (downloadDir h @ ''/'' @ fileName h)
                      (downloadDir h @ ''/'' @ newFileName lib h row))"
  shows "emits P (downloadLoop e lib h i c)"
proof (induction "length (rowsToProcess h) - i" arbitrary: i c)
  case 0
  then show ?case
    by (subst downloadLoop.simps) (simp add: emits_return)
next
  case (Suc k)
  then have lt: "i < length (rowsToProcess h)" and k: "k = length (rowsToProcess h) - (i + 1)"
    by auto
  have row: "emits P (processRowItem e lib h (rowsToProcess h ! i))"
    by (rule emits_processRowItem) (rule assms)+
  show ?case
    apply (subst downloadLoop.simps)
    apply (simp only: lt if_True Let_def)
    apply (intro emits_then emits_bind emits_catch emits_if emits_return emits_print emits_emit
        emits_navigate row assms Suc.hyps(1) [OF k])
    done
qed

lemma io_bind_assoc: "io_bind (io_bind m f) g = io_bind m (\<lambda>x. io_bind (f x) g)"
  by (rule ext) (simp add: io_bind_def split: option.splits sum.splits prod.splits)

lemma io_return_bind: "io_bind (io_return x) f = f x"
  by (rule ext) (simp add: io_bind_def io_return_def)

lemma names_after_discovery:
  "fileName (h\<lparr>rowsToProcess := found\<rparr>) = fileName h"
  "newFileName lib (h\<lparr>rowsToProcess := found\<rparr>) row = newFileName lib h row"
  by (simp_all add: fileName_def newFileName_def)

lemma emits_downloadInvoices:
  assumes "\<And>u. P (Goto u)" and "\<And>s v. P (WaitForSelector s v)" and "\<And>s. P (Click s)"
    and "\<And>t m. P (Report t m)" and "P Tick" and "\<And>args. P (PrintWithFilepath args)"
    and "\<And>n. P (Progress n)" and "\<And>s. P (QueryAll s)" and "\<And>s. P (ExtractText s)"
    and "P (SetDownloadBehavior (downloadDir h))"
    and "P (PathExists (downloadDir h @ ''/'' @ fileName h))"
    and "P (WaitForTimeout 1000)"
    and "\<And>row. P (Rename (downloadDir h @ ''/'' @ fileName h)
                      (downloadDir h @ ''/'' @ newFileName lib h row))"
  shows "emits P (downloadInvoices e lib h)"
proof -
  have loop: "emits P (downloadLoop e lib (h\<lparr>rowsToProcess := found\<rparr>) 0 0)" for found
    by (rule emits_downloadLoop) (use assms in \<open>simp_all add: names_after_discovery\<close>)
  show ?thesis
    unfolding downloadInvoices_def findAndSetRowsToProcess_def io_bind_assoc io_return_bind
    by (auto split: option.split
        intro!: emits_throw emits_then emits_bind emits_navigate emits_queryAll
          emits_findRowsToProcess emits_return emits_print emits_emit loop assms)
qed

section \<open>Properties of the end of the session\<close>

lemma emits_init: "emits not_close (init e h)"
  unfolding init_def
  by (intro emits_then emits_print emits_perform emits_return) (simp_all add: not_close_def)

lemma init_result:
  assumes "init e h0 tr = Some (Inr h, t1)"
  shows "page h = Some () \<and> browser h = Some ()"
  using assms
  by (auto simp: init_def io_then_def io_bind_def io_return_def print_def emit_def perform_def
      split: option.splits sum.splits)

lemma emits_login: "emits not_close (login e h)"
  unfolding login_def
  by (auto split: option.split
      intro!: emits_then emits_print emits_perform emits_throw emits_emit simp: not_close_def)

lemma emits_report_count: "emits not_close (report_count c)"
  unfolding report_count_def by (auto intro!: emits_print simp: not_close_def)

lemma emits_download_attempt: "emits not_close (download_attempt e lib h)"
  unfolding download_attempt_def
  by (intro emits_catch emits_then emits_bind emits_print emits_report_count
      emits_downloadInvoices) (simp_all add: not_close_def)

lemma never_throws_download_attempt: "never_throws (download_attempt e lib h)"
  by (auto simp: never_throws_def download_attempt_def io_catch_def io_then_def io_bind_def
      print_def emit_def split: option.splits sum.splits)

lemma teardown_calls:
  assumes "page_close_never_rejects e" and "page h = Some ()" and "browser h = Some ()"
  shows "\<exists>res. teardown e h t = Some (res, t @ [PageClose, BrowserClose])
    \<and> (closes_never_reject e \<longrightarrow> res = Inr ())"
  using assms
  by (simp add: teardown_def close_page_def close_browser_def on_page_def io_then_def io_bind_def
      perform_def closes_never_reject_def page_close_never_rejects_def split: option.splits)

lemma count_not_close:
  assumes "list_all not_close x"
  shows "count_list x PageClose = 0" "count_list x BrowserClose = 0"
  using assms by (auto simp: count_list_0_iff list_all_iff not_close_def)

lemma print_then: "io_then (print msg type) m t = m (t @ [Report type msg])"
  by (simp add: io_then_def io_bind_def print_def emit_def)

lemma login_body_returns:
  "returns (\<lambda>early. early = None)
     (io_then (print ''Trying to login...'' ''info'')
        (io_then (login e h)
           (io_then (print ''Logged in successfully'' ''info'') (io_return (None :: run_value option)))))"
  by (intro returns_then returns_return) simp

lemma emits_login_body:
  "emits not_close
     (io_then (print ''Trying to login...'' ''info'')
        (io_then (login e h)
           (io_then (print ''Logged in successfully'' ''info'') (io_return (None :: run_value option)))))"
  by (intro emits_then emits_print emits_login emits_return) (simp_all add: not_close_def)

lemma locked_run:
  "run locked_env sample_lib (sample_hunter february5) [] = Some (Inr Undefined, locked_history)"
  by code_simp

lemma crashed_run:
  "run crashed_env sample_lib (sample_hunter february5) [] =
     Some (Inl (Error ''Target closed''), crashed_history)"
  by code_simp

lemma locked_init:
  "init locked_env (sample_hunter february5) [] = Some (Inr (started_hunter february5), init_history)"
  by (simp add: init_def io_then_def io_bind_def io_return_def print_def emit_def perform_def
      locked_env_def sample_env_def started_hunter_def init_history_def width_def height_def
      sample_hunter_def constructor_def sample_config_def)

lemma crashed_init:
  "init crashed_env (sample_hunter february5) [] = Some (Inr (started_hunter february5), init_history)"
  by (simp add: init_def io_then_def io_bind_def io_return_def print_def emit_def perform_def
      crashed_env_def sample_env_def started_hunter_def init_history_def width_def height_def
      sample_hunter_def constructor_def sample_config_def)

lemma locked_page_close: "page_close_never_rejects locked_env"
  by (simp add: page_close_never_rejects_def locked_env_def sample_env_def)

text \<open>
  The paths on which the session is released. After an initialisation that went
  through, and when \<open>page.close()\<close> does not reject, every run that comes to an
  end has called \<open>page.close()\<close> exactly once and \<open>browser.close()\<close>
  exactly once: after a failed login, after a download phase that completed, and after
  a download phase that raised. When \<open>browser.close()\<close> does not reject either,
  the run ends without an exception.
\<close>

lemma run_closes_session_unless_page_close_rejects:
  assumes run: "run e lib h0 tr = Some (r, tr')"
    and ini: "init e h0 tr = Some (Inr h, t1)"
    and cl: "page_close_never_rejects e"
  shows "(\<exists>ext. tr' = tr @ ext \<and> count_list ext PageClose = 1 \<and> count_list ext BrowserClose = 1)
    \<and> (closes_never_reject e \<longrightarrow> r = Inr Undefined)"
proof -
  let ?body = "io_then (print ''Trying to login...'' ''info'')
        (io_then (login e h)
           (io_then (print ''Logged in successfully'' ''info'') (io_return (None :: run_value option))))"
  let ?t2 = "t1 @ [Report ''info'' ''Running...'']"
  from init_result [OF ini] have pg: "page h = Some ()" and br: "browser h = Some ()"
    by simp_all
  note td = teardown_calls [OF cl pg br]
  from emitsD [OF emits_init ini] obtain x0 where x0: "t1 = tr @ x0" "list_all not_close x0"
    by blast
  have start: "run e lib h0 tr =
      io_bind (login_attempt e h)
        (\<lambda>early. case early of
             Some v \<Rightarrow> io_return v
           | None \<Rightarrow> io_then (download_attempt e lib h)
                       (io_then (teardown e h) (io_return Undefined))) ?t2"
    using ini by (simp add: run_def io_bind_def print_then)
  show ?thesis
  proof (cases "?body ?t2")
    case None
    then have "login_attempt e h ?t2 = None"
      unfolding login_attempt_def by (rule io_catch_simps(1))
    with run start show ?thesis by (simp add: io_bind_def)
  next
    case (Some a)
    obtain res t3 where a: "a = (res, t3)" by (cases a)
    from emitsD [OF emits_login_body] Some a obtain x1 where
      x1: "t3 = ?t2 @ x1" "list_all not_close x1"
      by blast
    show ?thesis
    proof (cases res)
      case (Inl err)
      let ?t4 = "t3 @ [Report ''error'' ''Failed to login with provided credentials'']"
      from td [of ?t4] obtain res2 where
        t: "teardown e h ?t4 = Some (res2, ?t4 @ [PageClose, BrowserClose])"
        and ok: "closes_never_reject e \<longrightarrow> res2 = Inr ()"
        by blast
      from Inl Some a have "?body ?t2 = Some (Inl err, t3)" by simp
      then have "login_attempt e h ?t2 =
          io_then (print ''Failed to login with provided credentials'' ''error'')
            (io_then (teardown e h) (io_return (Some Undefined))) t3"
        unfolding login_attempt_def by (rule io_catch_simps(2))
      then have la: "login_attempt e h ?t2 =
          (case res2 of
             Inl err2 \<Rightarrow> Some (Inl err2, ?t4 @ [PageClose, BrowserClose])
           | Inr u \<Rightarrow> Some (Inr (Some Undefined), ?t4 @ [PageClose, BrowserClose]))"
        by (simp add: io_then_def io_bind_def print_def emit_def t io_return_def split: sum.splits)
      have "r = (case res2 of Inl err2 \<Rightarrow> Inl err2 | Inr u \<Rightarrow> Inr Undefined)
          \<and> tr' = ?t4 @ [PageClose, BrowserClose]"
      proof (cases res2)
        case (Inl err2)
        with la run start show ?thesis by (simp add: io_bind_def)
      next
        case (Inr u)
        with la run start show ?thesis by (simp add: io_bind_def io_return_def)
      qed
      then have r: "r = (case res2 of Inl err2 \<Rightarrow> Inl err2 | Inr u \<Rightarrow> Inr Undefined)"
        and tr': "tr' = ?t4 @ [PageClose, BrowserClose]"
        by simp_all
      let ?ext = "x0 @ [Report ''info'' ''Running...''] @ x1
          @ [Report ''error'' ''Failed to login with provided credentials'', PageClose, BrowserClose]"
      have "tr' = tr @ ?ext" using tr' x1(1) x0(1) by simp
      moreover have "count_list ?ext PageClose = 1" "count_list ?ext BrowserClose = 1"
        by (simp_all add: count_not_close [OF x0(2)] count_not_close [OF x1(2)])
      moreover have "closes_never_reject e \<longrightarrow> r = Inr Undefined"
        using r ok by simp
      ultimately show ?thesis by blast
    next
      case (Inr early)
      with Some a have body: "?body ?t2 = Some (Inr early, t3)" by simp
      from returnsD [OF login_body_returns body] have "early = None" .
      with body have "?body ?t2 = Some (Inr None, t3)" by simp
      then have "login_attempt e h ?t2 = Some (Inr None, t3)"
        unfolding login_attempt_def by (rule io_catch_simps(3))
      with run start have phase2: "io_then (download_attempt e lib h)
          (io_then (teardown e h) (io_return Undefined)) t3 = Some (r, tr')"
        by (simp add: io_bind_def)
      show ?thesis
      proof (cases "download_attempt e lib h t3")
        case None
        with phase2 show ?thesis by (simp add: io_then_def io_bind_def)
      next
        case (Some b)
        obtain res2 t4 where b: "b = (res2, t4)" by (cases b)
        from never_throws_download_attempt [of e lib h] Some b obtain u where "res2 = Inr u"
          by (cases res2) (auto simp: never_throws_def)
        with Some b have d: "download_attempt e lib h t3 = Some (Inr u, t4)" by simp
        from emitsD [OF emits_download_attempt d] obtain x2 where
          x2: "t4 = t3 @ x2" "list_all not_close x2"
          by blast
        from td [of t4] obtain res3 where
          t: "teardown e h t4 = Some (res3, t4 @ [PageClose, BrowserClose])"
          and ok: "closes_never_reject e \<longrightarrow> res3 = Inr ()"
          by blast
        from phase2 d t
        have r: "r = (case res3 of Inl err2 \<Rightarrow> Inl err2 | Inr u \<Rightarrow> Inr Undefined)"
          and tr': "tr' = t4 @ [PageClose, BrowserClose]"
          by (simp_all add: io_then_def io_bind_def io_return_def split: sum.splits)
        let ?ext = "x0 @ [Report ''info'' ''Running...''] @ x1 @ x2 @ [PageClose, BrowserClose]"
        have "tr' = tr @ ?ext" using tr' x2(1) x1(1) x0(1) by simp
        moreover have "count_list ?ext PageClose = 1" "count_list ?ext BrowserClose = 1"
          by (simp_all add: count_not_close [OF x0(2)] count_not_close [OF x1(2)]
              count_not_close [OF x2(2)])
        moreover have "closes_never_reject e \<longrightarrow> r = Inr Undefined"
          using r ok by simp
        ultimately show ?thesis by blast
      qed
    qed
  qed
qed

lemma locked_run_closes_session:
  "run locked_env sample_lib (sample_hunter february5) [] = Some (Inr Undefined, locked_history)
   \<and> init locked_env (sample_hunter february5) [] = Some (Inr (started_hunter february5), init_history)
   \<and> page_close_never_rejects locked_env
   \<and> count_list locked_history PageClose = 1
   \<and> count_list locked_history BrowserClose = 1"
  using run_closes_session_unless_page_close_rejects [OF locked_run locked_init locked_page_close]
    locked_run locked_init locked_page_close
  by simp

lemma crashed_page_close:
  "rejects crashed_env (butlast crashed_history) PageClose = Some ''Target closed''"
  by (simp add: crashed_env_def sample_env_def crashed_history_def)

text \<open>
  C3. The session is to be released exactly once on every path of \<open>run\<close> after
  the initialisation. The code does not do so on this path: in the sample portal with
  one invoice to download, the browser is lost at the click on the action button of the
  invoice. The failure of the record is caught and reported, the run reports that 0 of
  1 invoices were downloaded, and then \<open>page.close()\<close> rejects: \<open>run\<close> ends
  with that exception, and \<open>browser.close()\<close> has not been called.
\<close>

theorem run_skips_browser_close:
  "init crashed_env (sample_hunter february5) [] = Some (Inr (started_hunter february5), init_history)
   \<and> run crashed_env sample_lib (sample_hunter february5) [] =
       Some (Inl (Error ''Target closed''), crashed_history)
   \<and> rejects crashed_env (butlast crashed_history) PageClose = Some ''Target closed''
   \<and> last crashed_history = PageClose
   \<and> count_list crashed_history PageClose = 1
   \<and> count_list crashed_history BrowserClose = 0"
  using crashed_init crashed_run crashed_page_close by (simp add: crashed_history_def)

section \<open>Rows that cannot be parsed or read\<close>

lemma garbled_label:
  "row_date garbled_env sample_lib (started_hunter january5) [] 0 = Invalid"
  by (simp add: row_date_def row_label_def row_trace_def sample_selectors garbled_env_def
      sample_env_def sample_lib_def trim_def is_space_def)

lemma garbled_discovery:
  "findRowsToProcess garbled_env sample_lib (started_hunter january5)
     [ElementHandle 0, ElementHandle 1, ElementHandle 2] [] =
   Some (Inr [february5_row],
         [ExtractText ''li:nth-child(1) .d'', ExtractText ''li:nth-child(2) .d'',
          ExtractText ''li:nth-child(3) .d''])"
  by code_simp

lemma findRows_from_rejected:
  assumes "rows_readable e h tr k" and "k < n"
    and "rejects e (row_trace h tr k) (ExtractText (dateCellSelector h k)) = Some m"
  shows "i \<le> k \<Longrightarrow>
    findRows_from e lib h n i result (row_trace h tr i) =
      Some (Inl (Error m), row_trace h tr (Suc k))"
proof (induction "k - i" arbitrary: i result)
  case 0
  then have "i = k" by simp
  with assms(2,3) show ?case
    by (subst findRows_from.simps)
       (simp add: io_bind_def extractTextFromElement_def row_trace_Suc)
next
  case (Suc j)
  then have lt: "i < k" and j: "j = k - Suc i" and le: "Suc i \<le> k" by auto
  from assms(1) lt have ok: "rejects e (row_trace h tr i) (ExtractText (dateCellSelector h i)) = None"
    by (simp add: rows_readable_def list_all_iff)
  have "findRows_from e lib h n i result (row_trace h tr i) =
      findRows_from e lib h n (Suc i)
        (if isBefore (lastInvoiceDate h) (row_date e lib h tr i)
         then result @ [row_record e lib h tr i] else result) (row_trace h tr (Suc i))"
    using lt assms(2) ok
    by (subst findRows_from.simps)
       (simp add: io_bind_def extractTextFromElement_def row_trace_Suc row_date_def
          row_label_def row_record_def Let_def)
  then show ?case
    using Suc.hyps(1) [OF j le] by simp
qed

lemma isBefore_valid: "isBefore a b \<Longrightarrow> isValid a \<and> isValid b"
  by (simp add: isBefore_iff)

lemma garbled_readable: "rows_readable garbled_env h tr n"
  by (simp add: rows_readable_def garbled_env_def sample_env_def list_all_iff)

lemma unreadable_second_row:
  "rows_readable unreadable_env (started_hunter january5) [] (Suc 0)"
  "rejects unreadable_env (row_trace (started_hunter january5) [] (Suc 0))
     (ExtractText (dateCellSelector (started_hunter january5) (Suc 0))) = Some ''no node''"
  by (simp_all add: rows_readable_def unreadable_env_def sample_env_def sample_selectors)

text \<open>
  C4, as amended. With the page there, a label that does not parse gives an invalid
  date, and an invalid date is never after the watermark: when every label can be
  read, \<open>findRowsToProcess\<close> returns, and the dates of the rows it returns are the
  parsed dates that are after the watermark, in order, all of them valid; the rows that
  did not parse are left out and the rows after them are still examined. The call
  aborts only where a text cannot be extracted: at the first such row, with the
  exception of the extraction.
\<close>

theorem findRowsToProcess_skips_unparsed_rows:
  assumes "page h = Some p"
  shows "(rows_readable e h tr (length rows) \<longrightarrow>
      (\<exists>found. findRowsToProcess e lib h rows tr = Some (Inr found, row_trace h tr (length rows))
         \<and> map date found =
             filter (isBefore (lastInvoiceDate h)) (map (row_date e lib h tr) [0..<length rows])
         \<and> (\<forall>r \<in> set found. isValid (date r))))
    \<and> (\<forall>k m. k < length rows \<and> rows_readable e h tr k
           \<and> rejects e (row_trace h tr k) (ExtractText (dateCellSelector h k)) = Some m
         \<longrightarrow> findRowsToProcess e lib h rows tr = Some (Inl (Error m), row_trace h tr (Suc k)))"
proof (intro conjI impI allI)
  assume readable: "rows_readable e h tr (length rows)"
  let ?found = "map (row_record e lib h tr)
      (filter (\<lambda>i. isBefore (lastInvoiceDate h) (row_date e lib h tr i)) [0..<length rows])"
  have "findRowsToProcess e lib h rows tr = Some (Inr ?found, row_trace h tr (length rows))"
    by (rule findRowsToProcess_readable [OF assms readable])
  moreover have "map date ?found =
      filter (isBefore (lastInvoiceDate h)) (map (row_date e lib h tr) [0..<length rows])"
    by (simp add: filter_map comp_def row_record_def)
  moreover have "\<forall>r \<in> set ?found. isValid (date r)"
    by (auto simp: row_record_def dest: isBefore_valid)
  ultimately show "\<exists>found. findRowsToProcess e lib h rows tr =
        Some (Inr found, row_trace h tr (length rows))
      \<and> map date found =
          filter (isBefore (lastInvoiceDate h)) (map (row_date e lib h tr) [0..<length rows])
      \<and> (\<forall>r \<in> set found. isValid (date r))"
    by blast
next
  fix k m
  assume "k < length rows \<and> rows_readable e h tr k
      \<and> rejects e (row_trace h tr k) (ExtractText (dateCellSelector h k)) = Some m"
  then have "findRows_from e lib h (length rows) 0 [] (row_trace h tr 0) =
      Some (Inl (Error m), row_trace h tr (Suc k))"
    by (intro findRows_from_rejected) simp_all
  then show "findRowsToProcess e lib h rows tr = Some (Inl (Error m), row_trace h tr (Suc k))"
    using assms by (simp add: findRowsToProcess_def row_trace_def)
qed

theorem findRowsToProcess_skips_unparsed_rows_witness:
  "findRowsToProcess garbled_env sample_lib (started_hunter january5)
       [ElementHandle 0, ElementHandle 1, ElementHandle 2] [] =
     Some (Inr [february5_row],
           [ExtractText ''li:nth-child(1) .d'', ExtractText ''li:nth-child(2) .d'',
            ExtractText ''li:nth-child(3) .d''])
   \<and> isValid (date february5_row)
   \<and> findRowsToProcess unreadable_env sample_lib (started_hunter january5)
       [ElementHandle 0, ElementHandle 1, ElementHandle 2] [] =
     Some (Inl (Error ''no node''),
           [ExtractText ''li:nth-child(1) .d'', ExtractText ''li:nth-child(2) .d''])"
proof -
  have pg: "page (started_hunter january5) = Some ()"
    by (simp add: started_hunter_def)
  note th = findRowsToProcess_skips_unparsed_rows [OF pg, where lib = sample_lib and tr = "[]"
      and rows = "[ElementHandle 0, ElementHandle 1, ElementHandle 2]"]
  from th [of garbled_env] garbled_readable garbled_discovery
  have valid: "isValid (date february5_row)"
    by auto
  from th [of unreadable_env] unreadable_second_row
  have "findRowsToProcess unreadable_env sample_lib (started_hunter january5)
       [ElementHandle 0, ElementHandle 1, ElementHandle 2] [] =
     Some (Inl (Error ''no node''), row_trace (started_hunter january5) [] (Suc (Suc 0)))"
    by auto
  then show ?thesis
    using valid garbled_discovery by (simp add: row_trace_def sample_selectors)
qed

text \<open>
  C4, as stated, fails. The label of the first row is \<open>n/a\<close>, which does not
  parse; the discovery does not abort: it reads the two rows after it and returns the
  one dated after the watermark.
\<close>

theorem findRowsToProcess_parse_failure_counterexample:
  "row_date garbled_env sample_lib (started_hunter january5) [] 0 = Invalid
   \<and> findRowsToProcess garbled_env sample_lib (started_hunter january5)
       [ElementHandle 0, ElementHandle 1, ElementHandle 2] [] =
     Some (Inr [february5_row],
           [ExtractText ''li:nth-child(1) .d'', ExtractText ''li:nth-child(2) .d'',
            ExtractText ''li:nth-child(3) .d''])"
  using garbled_label garbled_discovery by simp

section \<open>Running twice\<close>

lemma fold_later:
  assumes "isValid a" and "\<forall>x \<in> set xs. isValid x"
  shows "isValid (fold (\<lambda>x acc. later acc x) xs a)
    \<and> instant a \<le> instant (fold (\<lambda>x acc. later acc x) xs a)
    \<and> (\<forall>x \<in> set xs. instant x \<le> instant (fold (\<lambda>x acc. later acc x) xs a))
    \<and> fold (\<lambda>x acc. later acc x) xs a \<in> set (a # xs)"
  using assms
proof (induction xs arbitrary: a)
  case Nil
  then show ?case by simp
next
  case (Cons x xs)
  let ?b = "later a x"
  from Cons.prems have vb: "isValid ?b" and ab: "instant a \<le> instant ?b"
    and xb: "instant x \<le> instant ?b" and mem: "?b = a \<or> ?b = x"
    by (auto simp: later_def isBefore_iff)
  from Cons.prems have "\<forall>y \<in> set xs. isValid y" by simp
  from Cons.IH [OF vb this] ab xb mem show ?case
    by auto
qed

lemma max_issue_date_is_max:
  assumes "\<forall>x \<in> set (r # rs). isValid (date x)"
  shows "isValid (max_issue_date r rs)"
    and "\<forall>x \<in> set (r # rs). \<not> isBefore (max_issue_date r rs) (date x)"
    and "max_issue_date r rs \<in> date ` set (r # rs)"
proof -
  have v: "isValid (date r)" "\<forall>x \<in> set (map date rs). isValid x"
    using assms by simp_all
  note f = fold_later [OF v, folded max_issue_date_def]
  from f show "isValid (max_issue_date r rs)" by simp
  from f show "\<forall>x \<in> set (r # rs). \<not> isBefore (max_issue_date r rs) (date x)"
    by (auto simp: isBefore_iff)
  from f show "max_issue_date r rs \<in> date ` set (r # rs)" by auto
qed

lemma isBefore_trans: "isBefore a b \<Longrightarrow> isBefore b c \<Longrightarrow> isBefore a c"
  by (auto simp: isBefore_iff)

lemma first_run:
  "findRowsToProcess sample_env sample_lib (started_hunter january5)
     [ElementHandle 0, ElementHandle 1, ElementHandle 2] [] =
   Some (Inr [march5_row, february5_row],
         [ExtractText ''li:nth-child(1) .d'', ExtractText ''li:nth-child(2) .d'',
          ExtractText ''li:nth-child(3) .d''])"
  by code_simp

lemma sample_dates_same:
  "row_date sample_env sample_lib (started_hunter w) tr i =
   row_date sample_env sample_lib (started_hunter w') tr' i"
  by (simp add: row_date_def row_label_def sample_env_def dateCellSelector_def
      currentRowSelector_def started_hunter_def sample_hunter_def constructor_def)

lemma sample_max: "max_issue_date march5_row [february5_row] = march5"
  by (simp add: max_issue_date_def later_def march5_row_def february5_row_def march5_def
      february5_def)

lemma downloadInvoices_nothing_selected:
  assumes "page h = Some pg"
    and "navigateToInvoicesPage e h tr0 = Some (Inr (), t1)"
    and "queryAllElements e (sel_listItems (endesa h)) t1 = Some (Inr rows, t2)"
    and "findRowsToProcess e lib h rows t2 = Some (Inr [], t3)"
  shows "downloadInvoices e lib h tr0 = Some (Inr \<lparr>total = 0, downloaded = 0\<rparr>, t3)"
  using assms
  by (simp add: downloadInvoices_def findAndSetRowsToProcess_def io_then_def io_bind_def
      io_return_def)

lemma sample_second_run_start:
  "navigateToInvoicesPage sample_env (started_hunter march5) [] =
     Some (Inr (), [Goto ''https://portal/invoices'', WaitForSelector ''li'' False])"
  "queryAllElements sample_env (sel_listItems (endesa (started_hunter march5)))
     [Goto ''https://portal/invoices'', WaitForSelector ''li'' False] =
     Some (Inr [ElementHandle 0, ElementHandle 1, ElementHandle 2],
           [Goto ''https://portal/invoices'', WaitForSelector ''li'' False, QueryAll ''li''])"
  by (simp_all add: navigateToInvoicesPage_def queryAllElements_def on_page_def perform_def
      io_then_def io_bind_def sample_env_def started_hunter_def sample_hunter_def constructor_def
      sample_config_def)

text \<open>
  C9. Idempotent re-run. Let a first discovery select the records \<open>r # rs\<close>. A second
  discovery over a list of the same length that shows the same dates, with the
  watermark at the maximum issue date of \<open>r # rs\<close>, selects nothing; and when that
  list is the one that \<open>downloadInvoices\<close> has navigated to and queried, it returns
  the counts 0 and 0 without opening any record.
\<close>

theorem rerun_from_max_issue_date_selects_nothing:
  assumes first: "findRowsToProcess e lib h rows tr = Some (Inr (r # rs), tr1)"
    and pg: "page h = Some p" and readable: "rows_readable e h tr (length rows)"
    and pg2: "page h2 = Some p2" and readable2: "rows_readable e2 h2 tr2 (length rows2)"
    and same_length: "length rows2 = length rows"
    and same_dates: "\<forall>i<length rows. row_date e2 lib2 h2 tr2 i = row_date e lib h tr i"
    and watermark: "lastInvoiceDate h2 = max_issue_date r rs"
  shows "findRowsToProcess e2 lib2 h2 rows2 tr2 = Some (Inr [], row_trace h2 tr2 (length rows2))
    \<and> (\<forall>tr0 t1. navigateToInvoicesPage e2 h2 tr0 = Some (Inr (), t1)
          \<and> queryAllElements e2 (sel_listItems (endesa h2)) t1 = Some (Inr rows2, tr2)
        \<longrightarrow> downloadInvoices e2 lib2 h2 tr0 =
              Some (Inr \<lparr>total = 0, downloaded = 0\<rparr>, row_trace h2 tr2 (length rows2)))"
proof -
  let ?w = "lastInvoiceDate h"
  let ?m = "max_issue_date r rs"
  let ?d = "row_date e lib h tr"
  from findRowsToProcess_readable [OF pg readable, of lib] first
  have sel: "r # rs = map (row_record e lib h tr) (filter (\<lambda>i. isBefore ?w (?d i)) [0..<length rows])"
    by simp
  then have dates: "map date (r # rs) = filter (isBefore ?w) (map ?d [0..<length rows])"
    by (simp add: filter_map comp_def row_record_def)
  have after: "\<forall>x \<in> set (r # rs). isBefore ?w (date x)"
  proof
    fix x assume "x \<in> set (r # rs)"
    then have "date x \<in> set (map date (r # rs))" by (simp only: set_map image_eqI)
    with dates show "isBefore ?w (date x)" by simp
  qed
  then have valid: "\<forall>x \<in> set (r # rs). isValid (date x)"
    by (blast dest: isBefore_valid)
  note mx = max_issue_date_is_max [OF valid]
  from mx(3) after have wm: "isBefore ?w ?m" by auto
  have none: "\<not> isBefore ?m (?d i)" if i: "i < length rows" for i
  proof
    assume b: "isBefore ?m (?d i)"
    with wm have "isBefore ?w (?d i)" by (rule isBefore_trans)
    with i have "?d i \<in> set (filter (isBefore ?w) (map ?d [0..<length rows]))" by simp
    with dates have "?d i \<in> set (map date (r # rs))" by simp
    moreover from mx(2) have "\<forall>y \<in> set (map date (r # rs)). \<not> isBefore ?m y"
      by simp
    ultimately show False using b by blast
  qed
  have "filter (\<lambda>i. isBefore (lastInvoiceDate h2) (row_date e2 lib2 h2 tr2 i)) [0..<length rows2] = []"
    using none same_dates same_length watermark by (simp add: filter_empty_conv)
  with findRowsToProcess_readable [OF pg2 readable2, of lib2]
  have nothing: "findRowsToProcess e2 lib2 h2 rows2 tr2 =
      Some (Inr [], row_trace h2 tr2 (length rows2))"
    by simp
  then show ?thesis
    using downloadInvoices_nothing_selected [OF pg2] by blast
qed

theorem rerun_from_max_issue_date_selects_nothing_witness:
  "findRowsToProcess sample_env sample_lib (started_hunter january5)
     [ElementHandle 0, ElementHandle 1, ElementHandle 2] [] =
   Some (Inr [march5_row, february5_row],
         [ExtractText ''li:nth-child(1) .d'', ExtractText ''li:nth-child(2) .d'',
          ExtractText ''li:nth-child(3) .d''])
   \<and> lastInvoiceDate (started_hunter march5) = max_issue_date march5_row [february5_row]
   \<and> findRowsToProcess sample_env sample_lib (started_hunter march5)
       [ElementHandle 0, ElementHandle 1, ElementHandle 2]
       [Goto ''https://portal/invoices'', WaitForSelector ''li'' False, QueryAll ''li''] =
     Some (Inr [],
         [Goto ''https://portal/invoices'', WaitForSelector ''li'' False, QueryAll ''li'',
          ExtractText ''li:nth-child(1) .d'', ExtractText ''li:nth-child(2) .d'',
          ExtractText ''li:nth-child(3) .d''])
   \<and> downloadInvoices sample_env sample_lib (started_hunter march5) [] =
     Some (Inr \<lparr>total = 0, downloaded = 0\<rparr>,
         [Goto ''https://portal/invoices'', WaitForSelector ''li'' False, QueryAll ''li'',
          ExtractText ''li:nth-child(1) .d'', ExtractText ''li:nth-child(2) .d'',
          ExtractText ''li:nth-child(3) .d''])"
proof -
  let ?rows = "[ElementHandle 0, ElementHandle 1, ElementHandle 2]"
  let ?tr2 = "[Goto ''https://portal/invoices'', WaitForSelector ''li'' False, QueryAll ''li'']"
  have pg: "page (started_hunter w) = Some ()" for w
    by (simp add: started_hunter_def)
  have wm: "lastInvoiceDate (started_hunter march5) = max_issue_date march5_row [february5_row]"
    by (simp add: sample_max started_hunter_def sample_hunter_def constructor_def)
  have same: "\<forall>i<length ?rows.
      row_date sample_env sample_lib (started_hunter march5) ?tr2 i =
      row_date sample_env sample_lib (started_hunter january5) [] i"
    using sample_dates_same by blast
  have tr: "row_trace (started_hunter march5) ?tr2 (length ?rows)
      = ?tr2 @ [ExtractText ''li:nth-child(1) .d'', ExtractText ''li:nth-child(2) .d'',
          ExtractText ''li:nth-child(3) .d'']"
    by (simp add: row_trace_def upt_rec sample_selectors sample_row_dates2)
  note th = rerun_from_max_issue_date_selects_nothing
    [OF first_run pg sample_rows_readable pg sample_rows_readable refl same wm,
     unfolded tr]
  from th sample_second_run_start
  have "downloadInvoices sample_env sample_lib (started_hunter march5) [] =
     Some (Inr \<lparr>total = 0, downloaded = 0\<rparr>,
       ?tr2 @ [ExtractText ''li:nth-child(1) .d'', ExtractText ''li:nth-child(2) .d'',
          ExtractText ''li:nth-child(3) .d''])"
    by blast
  with th first_run wm show ?thesis by simp
qed

section \<open>Properties of the paths\<close>





















end
